theory Spec2Isabelle
  imports Main "HOL-Library.Word" "HOL-Library.Sublist"
begin

unbundle bit_operations_syntax

section \<open>RunInSubst: data model\<close>

text \<open>
  The program is \<^verbatim>\<open>Public/Src/App/RunInSubst/RunInSubst.cpp\<close>. It is built as a wide-character
  Windows console program: \<^verbatim>\<open>TCHAR\<close> is the 16-bit \<^verbatim>\<open>wchar_t\<close>, \<^verbatim>\<open>DWORD\<close> and \<^verbatim>\<open>int\<close> are
  32 bits wide, a \<^verbatim>\<open>HANDLE\<close> is pointer sized. A C string is the list of its characters
  before the terminating zero; a pointer that may be \<^verbatim>\<open>nullptr\<close> is an \<open>option\<close>.
\<close>

type_synonym TCHAR = "16 word"
type_synonym wstring = "TCHAR list"
type_synonym DWORD = "32 word"
type_synonym CINT = "32 word"
type_synonym HANDLE = "64 word"

definition wstr :: "string \<Rightarrow> wstring" where
  \<comment> \<open>a wide string literal \<^verbatim>\<open>L"..."\<close>\<close>
  "wstr s = map of_char s"

definition BACKSLASH :: TCHAR where
  \<comment> \<open>\<^verbatim>\<open>L'\\'\<close>\<close>
  "BACKSLASH = 0x5C"

definition COLON :: TCHAR where
  \<comment> \<open>\<^verbatim>\<open>L':'\<close>\<close>
  "COLON = 0x3A"

definition QUOTE :: TCHAR where
  \<comment> \<open>\<^verbatim>\<open>L'"'\<close>\<close>
  "QUOTE = 0x22"

definition SPACE :: TCHAR where
  "SPACE = 0x20"

subsection \<open>The constants of the source (lines 18 to 28) and of the Windows headers\<close>

definition RUN_IN_SUBST_TIMEOUT :: nat where
  "RUN_IN_SUBST_TIMEOUT = 5000"

definition NUMBER_DEFINABLE_SUBST :: nat where
  "NUMBER_DEFINABLE_SUBST = 26"

definition MIN_SUBST_LENGTH :: nat where
  "MIN_SUBST_LENGTH = 3"

definition SUBST_START_OFFSET :: nat where
  "SUBST_START_OFFSET = 2"

definition SUBST_SOURCE_LENGTH :: nat where
  "SUBST_SOURCE_LENGTH = 65536"

definition GET_PATH_TARGET_OFFSET :: nat where
  "GET_PATH_TARGET_OFFSET = 8"

definition MAPPED_PATH_STRING :: wstring where
  \<comment> \<open>\<^verbatim>\<open>L"\\??\\"\<close>\<close>
  "MAPPED_PATH_STRING = [BACKSLASH, 0x3F, 0x3F, BACKSLASH]"

definition SUBST_FILE_NAME :: wstring where
  "SUBST_FILE_NAME = wstr ''.SubstLock''"

definition INVALID_HANDLE_VALUE :: HANDLE where
  "INVALID_HANDLE_VALUE = - 1"

definition INVALID_FILE_ATTRIBUTES :: DWORD where
  "INVALID_FILE_ATTRIBUTES = - 1"

definition FILE_ATTRIBUTE_DIRECTORY :: DWORD where
  "FILE_ATTRIBUTE_DIRECTORY = 0x10"

definition ERROR_SHARING_VIOLATION :: DWORD where
  "ERROR_SHARING_VIOLATION = 32"

subsection \<open>C runtime helpers\<close>

text \<open>
  The program never calls \<^verbatim>\<open>setlocale\<close>, so the character functions work in the "C" locale:
  only the ASCII letters are letters and only they change case.
\<close>

definition isalpha_c :: "TCHAR \<Rightarrow> bool" where
  "isalpha_c c \<longleftrightarrow> (0x41 \<le> c \<and> c \<le> 0x5A) \<or> (0x61 \<le> c \<and> c \<le> 0x7A)"

definition totupper :: "TCHAR \<Rightarrow> TCHAR" where
  "totupper c = (if 0x61 \<le> c \<and> c \<le> 0x7A then c - 0x20 else c)"

definition totlower :: "TCHAR \<Rightarrow> TCHAR" where
  "totlower c = (if 0x41 \<le> c \<and> c \<le> 0x5A then c + 0x20 else c)"

definition wcscpy_s :: "nat \<Rightarrow> wstring \<Rightarrow> wstring option" where
  \<comment> \<open>\<^verbatim>\<open>wcscpy_s(dest, sizeInWords, src)\<close>: the copy needs room for the string and its
      terminating zero; otherwise the destination is too small, which is the runtime's
      invalid-parameter condition (\<open>None\<close>)\<close>
  "wcscpy_s sizeInWords src = (if length src < sizeInWords then Some src else None)"

subsection \<open>The mapping table\<close>

record SUBST_NODE =
  szDriveLetter :: TCHAR
  szSourceDirectory :: "wstring option"
  szMappedPath :: "wstring option"
  hLockFile :: HANDLE

definition new_SUBST_NODE :: "TCHAR \<Rightarrow> wstring \<Rightarrow> SUBST_NODE" where
  \<comment> \<open>the constructor \<^verbatim>\<open>_tagSubstNode(TCHAR drive, const TCHAR* srcDir)\<close>\<close>
  "new_SUBST_NODE drive srcDir =
     \<lparr> szDriveLetter = drive, szSourceDirectory = Some srcDir,
       szMappedPath = None, hLockFile = INVALID_HANDLE_VALUE \<rparr>"

text \<open>
  \<^verbatim>\<open>pOrderedSubstList\<close> is an array of \<^verbatim>\<open>NUMBER_DEFINABLE_SUBST\<close> node pointers, indexed by
  letter. \<^verbatim>\<open>pSubstList\<close> is a linked list whose elements point to the same nodes, in the
  order of the command line; an element is modelled by the index of its node in the array.
\<close>

type_synonym subst_table = "SUBST_NODE option list"
type_synonym subst_list = "nat list"

definition InitializeState :: "subst_list \<times> subst_table \<times> int" where
  "InitializeState = ([], replicate NUMBER_DEFINABLE_SUBST None, - 1)"

section \<open>The operating system as seen by the program\<close>

text \<open>
  The program is sequential and deterministic: what it does depends only on the answers of
  the operating system to its calls. A run is therefore a function of the list of these
  answers, in the order of the calls (\<open>os_reply\<close>), and it yields the list of calls made
  with their answers (\<open>event\<close>) and how the run ended.
\<close>

datatype process_run =
    CreateProcessFailed
  | GetExitCodeProcessFailed
  | Exited DWORD

datatype enum_run =
    CreatePipeFailed
  | SetHandleInformationFailed
  | EnumCreateProcessFailed
  | CloseHandleFailed
  | EnumOutput "8 word list list"
    \<comment> \<open>the chunks returned by the successful \<^verbatim>\<open>ReadFile\<close> calls, before the one that ends the loop\<close>

datatype os_reply =
    FileAttributes DWORD
  | FileOpen HANDLE DWORD
    \<comment> \<open>the value of \<^verbatim>\<open>CreateFile\<close> and of \<^verbatim>\<open>GetLastError\<close> after it\<close>
  | ProcessRun process_run
  | EnumRun enum_run
  | CurrentDirectory wstring
    \<comment> \<open>the string stored by \<^verbatim>\<open>GetCurrentDirectory\<close>; empty when it returns 0\<close>

datatype log_line =
    TimeStamp
  | Substituting TCHAR "wstring option"
  | DoneUnsubst TCHAR "wstring option"
  | InvalidLockState "wstring option"

datatype event =
    EvGetFileAttributes wstring DWORD
  | EvCreateFile wstring HANDLE DWORD
  | EvSleep nat
  | EvMapDrive TCHAR wstring process_run
  | EvUnmapDrive TCHAR wstring process_run
  | EvGetMappedPaths enum_run
  | EvCloseHandle HANDLE
  | EvWriteFile HANDLE log_line
  | EvPrint string
  | EvAssert string
    \<comment> \<open>control reaches an \<^verbatim>\<open>assert\<close> whose condition is false; the run is aborted there
        unless the program was built with \<^verbatim>\<open>NDEBUG\<close>, which compiles the statement away\<close>
  | EvGetCurrentDirectory wstring
  | EvCreateProcess wstring wstring process_run

datatype halt =
    Blocked
    \<comment> \<open>the run is waiting for an answer the list does not hold\<close>
  | AssertionFailed
  | InvalidParameter
  | AccessViolation
  | OutOfBounds

datatype ('a, 'r) ctl =
    Next 'a
    \<comment> \<open>the code falls through, with this state\<close>
  | Ret 'r
    \<comment> \<open>the enclosing function returns this value\<close>
  | Stop halt

section \<open>Running the substitution tool\<close>

definition MapUnmapSubstExecute :: "wstring \<Rightarrow> process_run \<Rightarrow> CINT" where
  "MapUnmapSubstExecute substCommand run =
     (case run of
        CreateProcessFailed \<Rightarrow> 1
      | GetExitCodeProcessFailed \<Rightarrow> 1
      | Exited exitCode \<Rightarrow> if exitCode \<noteq> 0 then 1 else 0)"

definition UnmapDrive :: "SUBST_NODE \<Rightarrow> process_run \<Rightarrow> event list \<times> CINT" where
  "UnmapDrive pSubstNode run =
     (let substCommand = wstr ''subst /D '' @ [QUOTE] @ [szDriveLetter pSubstNode]
                         @ [COLON] @ [QUOTE];
          ret = MapUnmapSubstExecute substCommand run
      in ([EvUnmapDrive (szDriveLetter pSubstNode) substCommand run], ret))"

definition MapDrive :: "SUBST_NODE \<Rightarrow> process_run \<Rightarrow> event list \<times> (halt + CINT)" where
  \<comment> \<open>\<^verbatim>\<open>wcslen(szSourceDirectory) - 1\<close> characters of the source directory are appended:
      a null pointer or an empty string is not a string the code can take the length of\<close>
  "MapDrive pSubstNode run =
     (case szSourceDirectory pSubstNode of
        None \<Rightarrow> ([], Inl AccessViolation)
      | Some src \<Rightarrow>
          if src = [] then ([], Inl OutOfBounds)
          else
            (let substCommand = wstr ''subst '' @ [QUOTE] @ [szDriveLetter pSubstNode]
                                @ [COLON] @ [QUOTE, SPACE, QUOTE]
                                @ take (length src - 1) src @ [QUOTE];
                 ret = MapUnmapSubstExecute substCommand run
             in ([EvMapDrive (szDriveLetter pSubstNode) substCommand run], Inr 0)))"

definition LogToFile :: "SUBST_NODE \<Rightarrow> log_line \<Rightarrow> event list" where
  \<comment> \<open>two \<^verbatim>\<open>WriteFile\<close> calls, the time stamp and the formatted line, on a valid handle only\<close>
  "LogToFile pSubstNode line =
     (if hLockFile pSubstNode \<noteq> INVALID_HANDLE_VALUE
      then [EvWriteFile (hLockFile pSubstNode) TimeStamp, EvWriteFile (hLockFile pSubstNode) line]
      else [])"

section \<open>GetMappedPaths: the current mappings, as the substitution tool lists them\<close>

text \<open>
  The tool prints one line \<^verbatim>\<open>X:\: => C:\path\<close> for each mapping. \<^verbatim>\<open>chBuf\<close> is a vector of
  \<^verbatim>\<open>SUBST_SOURCE_LENGTH\<close> bytes, zero at first and reused by every \<^verbatim>\<open>ReadFile\<close>; it is
  modelled as a function of the index, and an index past its end as \<open>OutOfBounds\<close>.
\<close>

type_synonym chbuf = "nat \<Rightarrow> 8 word"

definition tolower_c :: "8 word \<Rightarrow> 8 word" where
  "tolower_c c = (if 0x41 \<le> c \<and> c \<le> 0x5A then c + 0x20 else c)"

function scan_path :: "chbuf \<Rightarrow> nat \<Rightarrow> wstring \<Rightarrow> halt + (wstring \<times> nat)" where
  \<comment> \<open>the loop of lines 408 to 412\<close>
  "scan_path chBuf i mappedPath =
     (if SUBST_SOURCE_LENGTH \<le> i then Inl OutOfBounds
      else if chBuf i \<noteq> 0x0D \<and> chBuf i \<noteq> 0
      then scan_path chBuf (i + 1) (mappedPath @ [scast (tolower_c (chBuf i))])
      else Inr (mappedPath, i))"
  by pat_completeness auto
termination
  by (relation "measure (\<lambda>(chBuf, i, mappedPath). SUBST_SOURCE_LENGTH - i)") auto

declare scan_path.simps [simp del]

lemma scan_path_index:
  "scan_path chBuf i mappedPath = Inr (p, j) \<Longrightarrow> i \<le> j"
proof (induction chBuf i mappedPath rule: scan_path.induct)
  case (1 chBuf i mappedPath)
  show ?case
  proof (cases "\<not> SUBST_SOURCE_LENGTH \<le> i \<and> chBuf i \<noteq> 0x0D \<and> chBuf i \<noteq> 0")
    case True
    with "1.prems" have "scan_path chBuf (i + 1) (mappedPath @ [scast (tolower_c (chBuf i))]) = Inr (p, j)"
      by (subst (asm) scan_path.simps) simp
    with "1.IH" True have "i + 1 \<le> j" by simp
    then show ?thesis by simp
  next
    case False
    with "1.prems" show ?thesis
      by (subst (asm) scan_path.simps) (auto split: if_splits)
  qed
qed

function parse_lines ::
  "chbuf \<Rightarrow> nat \<Rightarrow> subst_table \<Rightarrow> (nat \<times> subst_table, subst_table) ctl" where
  \<comment> \<open>the loop of lines 395 to 464: \<open>Next\<close> when it is left by \<^verbatim>\<open>break\<close>, \<open>Ret\<close> when
      \<^verbatim>\<open>GetMappedPaths\<close> returns 1 at line 432\<close>
  "parse_lines chBuf i tbl =
     (if SUBST_SOURCE_LENGTH \<le> i then Stop OutOfBounds
      else if chBuf i = 0 then Next (i, tbl)
      else
        (case scan_path chBuf (i + GET_PATH_TARGET_OFFSET) [] of
           Inl h \<Rightarrow> Stop h
         | Inr (mappedPath, j) \<Rightarrow>
             (let mappedPathOffset = (if prefix MAPPED_PATH_STRING mappedPath then 4 else 0);
                  driveLetter = totupper (scast (chBuf i));
                  substTargetValue = unat driveLetter
              in if substTargetValue < 65 \<or> substTargetValue > 90 then Ret tbl
                 else if mappedPath = [] then Stop OutOfBounds
                 else
                   (let srcLen = length mappedPath;
                        mappedPath = (if last mappedPath \<noteq> BACKSLASH
                                      then mappedPath @ [BACKSLASH] else mappedPath)
                    in case (case tbl ! (substTargetValue - 65) of
                               None \<Rightarrow> Some tbl
                             | Some node \<Rightarrow>
                                 (case wcscpy_s (srcLen + 2) (drop mappedPathOffset mappedPath) of
                                    None \<Rightarrow> None
                                  | Some s \<Rightarrow>
                                      Some (tbl[substTargetValue - 65 :=
                                                  Some (node\<lparr>szMappedPath := Some s\<rparr>)]))) of
                         None \<Rightarrow> Stop InvalidParameter
                       | Some tbl' \<Rightarrow>
                           if chBuf j = 0 then Next (j, tbl')
                           else parse_lines chBuf (j + 2) tbl'))))"
  by pat_completeness auto
termination
proof (relation "measure (\<lambda>(chBuf, i, tbl). SUBST_SOURCE_LENGTH - i)", goal_cases)
  case 1
  show ?case by simp
next
  case (2 chBuf i tbl x2 mappedPath j)
  from 2 have "i + GET_PATH_TARGET_OFFSET \<le> j"
    using scan_path_index by metis
  with 2 show ?case by simp
qed

declare parse_lines.simps [simp del]

fun read_chunks ::
  "chbuf \<Rightarrow> 8 word list list \<Rightarrow> subst_table \<Rightarrow> (subst_table, subst_table) ctl" where
  \<comment> \<open>the loop of lines 378 to 470, one round for each chunk \<^verbatim>\<open>ReadFile\<close> returns\<close>
  "read_chunks chBuf [] tbl = Next tbl"
| "read_chunks chBuf (chunk # chunks) tbl =
     (if chunk = [] then Next tbl
      else if SUBST_SOURCE_LENGTH \<le> length chunk then Stop OutOfBounds
      else
        (let dwRead = length chunk;
             chBuf = (\<lambda>k. if k < dwRead then chunk ! k else chBuf k);
             chBuf = chBuf(dwRead := 0)
         in case parse_lines chBuf 0 tbl of
              Next (i, tbl') \<Rightarrow>
                if chBuf i \<noteq> 0 then Next tbl' else read_chunks chBuf chunks tbl'
            | Ret tbl' \<Rightarrow> Ret tbl'
            | Stop h \<Rightarrow> Stop h))"

definition GetMappedPaths ::
  "subst_table \<Rightarrow> enum_run \<Rightarrow> event list \<times> (halt + CINT \<times> subst_table)" where
  "GetMappedPaths pOrderedSubstList run =
     (case run of
        CreatePipeFailed \<Rightarrow>
          ([EvGetMappedPaths run, EvPrint ''Error: Could not get MappedDrives: CreatePipe.''],
           Inr (1, pOrderedSubstList))
      | SetHandleInformationFailed \<Rightarrow>
          ([EvGetMappedPaths run,
            EvPrint ''Error: Could not get MappedDrives: SetHandleInformation.''],
           Inr (1, pOrderedSubstList))
      | EnumCreateProcessFailed \<Rightarrow>
          ([EvGetMappedPaths run, EvPrint ''Error: Could not get MappedDrives: CreateProcess.''],
           Inr (1, pOrderedSubstList))
      | CloseHandleFailed \<Rightarrow>
          ([EvGetMappedPaths run,
            EvPrint ''Error: Could not get MappedDrives: CloseChildHandle.''],
           Inr (1, pOrderedSubstList))
      | EnumOutput chunks \<Rightarrow>
          (case read_chunks (\<lambda>k. 0) chunks pOrderedSubstList of
             Next tbl \<Rightarrow> ([EvGetMappedPaths run], Inr (0, tbl))
           | Ret tbl \<Rightarrow>
               ([EvGetMappedPaths run,
                 EvPrint ''Error: Invalid target drive letter. Allowed drive letters A-Z.''],
                Inr (1, tbl))
           | Stop h \<Rightarrow> ([EvGetMappedPaths run], Inl h)))"

section \<open>ParseSubstSourcesAndTargets: the command line\<close>

fun wcsstr :: "wstring \<Rightarrow> wstring \<Rightarrow> nat option" where
  \<comment> \<open>the offset of the first occurrence of the second string in the first; \<open>None\<close> is the
      null pointer\<close>
  "wcsstr [] strSearch = (if strSearch = [] then Some 0 else None)"
| "wcsstr (c # str) strSearch =
     (if prefix strSearch (c # str) then Some 0 else map_option Suc (wcsstr str strSearch))"

function parse_args ::
  "wstring list \<Rightarrow> nat \<Rightarrow> subst_list \<Rightarrow> subst_table \<Rightarrow> int \<Rightarrow> os_reply list
   \<Rightarrow> event list \<times> (halt + bool \<times> subst_list \<times> subst_table \<times> int \<times> os_reply list)" where
  \<comment> \<open>the loop of lines 189 to 266, from argument \<open>i\<close> on; the boolean is the value
      \<^verbatim>\<open>ParseSubstSourcesAndTargets\<close> returns\<close>
  "parse_args argv i pSubstList pOrderedSubstList executableToRunIndex rs =
     (if length argv \<le> i
      then ([], Inr (False, pSubstList, pOrderedSubstList, executableToRunIndex, rs))
      else
        (let arg = argv ! i in
         if wcsstr arg (wstr ''='') \<noteq> Some 1 \<or> \<not> isalpha_c (arg ! 0)
            \<or> length arg < MIN_SUBST_LENGTH
         then ([], Inr (False, pSubstList, pOrderedSubstList, int i, rs))
         else
           (let substTarget = totupper (arg ! 0);
                substSource = map totlower (drop SUBST_START_OFFSET arg);
                substSource = (if last substSource \<noteq> BACKSLASH
                               then substSource @ [BACKSLASH] else substSource);
                substTargetValue = unat substTarget
            in if substTargetValue < 65 \<or> substTargetValue > 90
               then ([EvPrint ''Error: Invalid target drive letter. Allowed drive letters A-Z.''],
                     Inr (True, pSubstList, pOrderedSubstList, executableToRunIndex, rs))
               else
                 (case pOrderedSubstList ! (substTargetValue - 65) of
                    Some node \<Rightarrow>
                      (case wcscpy_s (length substSource) substSource of
                         None \<Rightarrow> ([], Inl InvalidParameter)
                       | Some s \<Rightarrow>
                           parse_args argv (i + 1) pSubstList
                             (pOrderedSubstList[substTargetValue - 65 :=
                                Some (node\<lparr>szSourceDirectory := Some s\<rparr>)])
                             executableToRunIndex rs)
                  | None \<Rightarrow>
                      (case rs of
                         FileAttributes srcAttr # rs' \<Rightarrow>
                           if srcAttr = INVALID_FILE_ATTRIBUTES
                           then ([EvGetFileAttributes substSource srcAttr,
                                  EvPrint ''Warning: The local location is invalid.''],
                                 Inr (True, pSubstList, pOrderedSubstList,
                                      executableToRunIndex, rs'))
                           else if srcAttr AND FILE_ATTRIBUTE_DIRECTORY = 0
                           then ([EvGetFileAttributes substSource srcAttr,
                                  EvPrint ''Warning: The local location is invalid. It should be a directory.''],
                                 Inr (True, pSubstList, pOrderedSubstList,
                                      executableToRunIndex, rs'))
                           else
                             (let (evs, r) =
                                    parse_args argv (i + 1)
                                      (pSubstList @ [substTargetValue - 65])
                                      (pOrderedSubstList[substTargetValue - 65 :=
                                         Some (new_SUBST_NODE substTarget substSource)])
                                      executableToRunIndex rs'
                              in (EvGetFileAttributes substSource srcAttr # evs, r))
                       | _ \<Rightarrow> ([], Inl Blocked))))))"
  by pat_completeness auto
termination
  by (relation "measure (\<lambda>(argv, i, pSubstList, pOrderedSubstList, executableToRunIndex, rs).
                            length argv - i)") auto

declare parse_args.simps [simp del]

definition ParseSubstSourcesAndTargets ::
  "wstring list \<Rightarrow> subst_list \<Rightarrow> subst_table \<Rightarrow> int \<Rightarrow> os_reply list
   \<Rightarrow> event list \<times> (halt + bool \<times> subst_list \<times> subst_table \<times> int \<times> os_reply list)" where
  \<comment> \<open>\<open>argv\<close> holds the \<^verbatim>\<open>argc\<close> arguments, the program's own name first\<close>
  "ParseSubstSourcesAndTargets argv pSubstList pOrderedSubstList executableToRunIndex rs =
     parse_args argv 1 pSubstList pOrderedSubstList executableToRunIndex rs"

section \<open>ExecuteProcess: the child process and its working directory\<close>

definition quote_arg :: "wstring \<Rightarrow> wstring" where
  \<comment> \<open>an argument of the command line: in quotes when it holds a space, and a space after it\<close>
  "quote_arg arg =
     (if wcsstr arg [SPACE] \<noteq> None then [QUOTE] @ arg @ [QUOTE] else arg) @ [SPACE]"

fun find_start_directory ::
  "subst_table \<Rightarrow> wstring \<Rightarrow> nat \<Rightarrow> wstring \<Rightarrow> halt + wstring" where
  \<comment> \<open>the loop of lines 678 to 702 over the slots still to visit, with \<^verbatim>\<open>longestDirMatch\<close>
      and \<^verbatim>\<open>newCurrentDir\<close> as they stand; \<^verbatim>\<open>wcscat_s\<close> needs room for the three characters
      of the drive, the rest of the current directory and the terminating zero\<close>
  "find_start_directory [] currentDir longestDirMatch newCurrentDir = Inr newCurrentDir"
| "find_start_directory (None # rest) currentDir longestDirMatch newCurrentDir =
     find_start_directory rest currentDir longestDirMatch newCurrentDir"
| "find_start_directory (Some pListNode # rest) currentDir longestDirMatch newCurrentDir =
     (case szSourceDirectory pListNode of
        None \<Rightarrow> Inl AccessViolation
      | Some src \<Rightarrow>
          if wcsstr currentDir src = Some 0
          then
            (let len = length src in
             if len > longestDirMatch
             then
               (if SUBST_SOURCE_LENGTH < 3 + (length currentDir - len) + 1
                then Inl InvalidParameter
                else find_start_directory rest currentDir len
                       ([szDriveLetter pListNode, COLON, BACKSLASH] @ drop len currentDir))
             else find_start_directory rest currentDir longestDirMatch newCurrentDir)
          else find_start_directory rest currentDir longestDirMatch newCurrentDir)"

definition lower_with_separator :: "wstring \<Rightarrow> wstring" where
  \<comment> \<open>lines 662 to 673: the current directory in lower case, a backslash after it if it
      does not end with one\<close>
  "lower_with_separator dir =
     (let currentDir = map totlower dir
      in if last currentDir \<noteq> BACKSLASH then currentDir @ [BACKSLASH] else currentDir)"

definition working_directory :: "subst_table \<Rightarrow> wstring \<Rightarrow> halt + wstring" where
  \<comment> \<open>lines 662 to 709: the directory the child is started in, for the non-empty string
      \<^verbatim>\<open>GetCurrentDirectory\<close> stored; \<^verbatim>\<open>currentDir\<close> has \<^verbatim>\<open>SUBST_SOURCE_LENGTH\<close> characters, one of
      them for the terminating zero\<close>
  "working_directory pOrderedSubstList dir =
     (let currentDir = lower_with_separator dir
      in if SUBST_SOURCE_LENGTH \<le> length currentDir then Inl OutOfBounds
         else
           (case find_start_directory pOrderedSubstList currentDir 0 [] of
              Inl h \<Rightarrow> Inl h
            | Inr newCurrentDir \<Rightarrow>
                Inr (if length newCurrentDir = 0 then currentDir else newCurrentDir)))"

definition ExecuteProcess ::
  "wstring list \<Rightarrow> int \<Rightarrow> subst_table \<Rightarrow> os_reply list
   \<Rightarrow> event list \<times> (halt + CINT \<times> os_reply list)" where
  "ExecuteProcess argv executableToRunIndex pOrderedSubstList rs =
     (if executableToRunIndex = - 1
      then ([EvPrint ''Error: No process was specified to be executed while in subst mode.''],
            Inr (1, rs))
      else
        (let commandToExecute = concat (map quote_arg (drop (nat executableToRunIndex) argv))
         in case rs of
              CurrentDirectory dir # rs1 \<Rightarrow>
                if dir = []
                then ([EvGetCurrentDirectory dir,
                       EvPrint ''Error: Could not get current directory.''], Inr (1, rs1))
                else
                  (case working_directory pOrderedSubstList dir of
                     Inl h \<Rightarrow> ([EvGetCurrentDirectory dir], Inl h)
                   | Inr newCurrentDir \<Rightarrow>
                       (case rs1 of
                          ProcessRun run # rs2 \<Rightarrow>
                            (case run of
                               CreateProcessFailed \<Rightarrow>
                                 ([EvGetCurrentDirectory dir,
                                   EvCreateProcess commandToExecute newCurrentDir run,
                                   EvPrint ''Error: Failed creating process.''], Inr (1, rs2))
                             | GetExitCodeProcessFailed \<Rightarrow>
                                 ([EvGetCurrentDirectory dir,
                                   EvCreateProcess commandToExecute newCurrentDir run,
                                   EvPrint ''Error: Process exit code could not be obtained.''],
                                  Inr (1, rs2))
                             | Exited exitCode \<Rightarrow>
                                 ([EvGetCurrentDirectory dir,
                                   EvCreateProcess commandToExecute newCurrentDir run],
                                  Inr (exitCode, rs2)))
                        | _ \<Rightarrow> ([EvGetCurrentDirectory dir], Inl Blocked)))
            | _ \<Rightarrow> ([], Inl Blocked)))"

section \<open>SubstDrivesAndExecute: locking, mapping, running, cleaning up\<close>

subsection \<open>The first loop: the lock files in the source directories (lines 768 to 841)\<close>

fun acquire_source_lock ::
  "wstring \<Rightarrow> os_reply list \<Rightarrow> event list \<times> (HANDLE \<times> os_reply list, CINT) ctl" where
  \<comment> \<open>the \<^verbatim>\<open>while (true)\<close> of lines 809 to 836, on the lock file's path\<close>
  "acquire_source_lock substFileLock (FileOpen substFileLockHandle lastError # rs) =
     (if substFileLockHandle = INVALID_HANDLE_VALUE
      then
        (if lastError = ERROR_SHARING_VIOLATION
         then
           (let (evs, r) = acquire_source_lock substFileLock rs
            in ([EvCreateFile substFileLock substFileLockHandle lastError,
                 EvPrint ''Warning: Lock file for local lock file is in use by another process. Waiting...'',
                 EvSleep RUN_IN_SUBST_TIMEOUT] @ evs, r))
         else
           ([EvCreateFile substFileLock substFileLockHandle lastError,
             EvPrint ''Error: Could not get exclusive write lock for local lock file.''],
            Ret 1))
      else ([EvCreateFile substFileLock substFileLockHandle lastError],
            Next (substFileLockHandle, rs)))"
| "acquire_source_lock substFileLock rs = ([], Stop Blocked)"

definition lock_slot ::
  "SUBST_NODE \<Rightarrow> os_reply list \<Rightarrow> event list \<times> (SUBST_NODE \<times> os_reply list, CINT) ctl" where
  \<comment> \<open>the body of the first loop for a slot that is not null (lines 777 to 838)\<close>
  "lock_slot pListNode rs =
     (case szSourceDirectory pListNode of
        None \<Rightarrow> ([EvPrint ''Error: Invalid source location for a subst drive.''], Ret 1)
      | Some dir \<Rightarrow>
          (case rs of
             FileAttributes srcAttr # rs1 \<Rightarrow>
               if srcAttr = INVALID_FILE_ATTRIBUTES
               then ([EvGetFileAttributes dir srcAttr,
                      EvPrint ''Error: Invalid source location for a subst drive. The source location doesn't exist.''],
                     Ret 1)
               else if srcAttr AND FILE_ATTRIBUTE_DIRECTORY = 0
               then ([EvGetFileAttributes dir srcAttr,
                      EvPrint ''Error: Invalid source location for a subst drive. The source location is not a directory.''],
                     Ret 1)
               else
                 (case acquire_source_lock (dir @ SUBST_FILE_NAME) rs1 of
                    (evs, Next (h, rs2)) \<Rightarrow>
                      (let node = pListNode\<lparr>hLockFile := h\<rparr>
                       in (EvGetFileAttributes dir srcAttr # evs
                           @ LogToFile node
                               (Substituting (szDriveLetter node) (szSourceDirectory node)),
                           Next (node, rs2)))
                  | (evs, Ret v) \<Rightarrow> (EvGetFileAttributes dir srcAttr # evs, Ret v)
                  | (evs, Stop h) \<Rightarrow> (EvGetFileAttributes dir srcAttr # evs, Stop h))
           | _ \<Rightarrow> ([], Stop Blocked)))"

function lock_phase ::
  "nat \<Rightarrow> subst_table \<Rightarrow> os_reply list
   \<Rightarrow> event list \<times> (subst_table \<times> os_reply list, CINT) ctl" where
  \<comment> \<open>the first loop, from index \<open>i\<close> on\<close>
  "lock_phase i pOrderedSubstList rs =
     (if NUMBER_DEFINABLE_SUBST \<le> i then ([], Next (pOrderedSubstList, rs))
      else
        (case pOrderedSubstList ! i of
           None \<Rightarrow> lock_phase (i + 1) pOrderedSubstList rs
         | Some pListNode \<Rightarrow>
             (case lock_slot pListNode rs of
                (evs, Next (node, rs')) \<Rightarrow>
                  (let (evs', r) = lock_phase (i + 1) (pOrderedSubstList[i := Some node]) rs'
                   in (evs @ evs', r))
              | (evs, Ret v) \<Rightarrow> (evs, Ret v)
              | (evs, Stop h) \<Rightarrow> (evs, Stop h))))"
  by pat_completeness auto
termination
  by (relation "measure (\<lambda>(i, pOrderedSubstList, rs). NUMBER_DEFINABLE_SUBST - i)") auto

declare lock_phase.simps [simp del]

subsection \<open>The second loop: map, list the mappings, compare (lines 844 to 927)\<close>

definition drive_lock_file :: "TCHAR \<Rightarrow> wstring" where
  \<comment> \<open>lines 866 to 869. The operand of \<^verbatim>\<open>+=\<close> is \<^verbatim>\<open>L':' + L'\\' + L'\0'\<close>: the three characters
      are promoted to \<^verbatim>\<open>int\<close> and added, and the sum is appended as one character\<close>
  "drive_lock_file driveLetter =
     [driveLetter]
     @ [ucast ((ucast COLON :: 32 word) + ucast BACKSLASH + ucast (0 :: TCHAR))]
     @ SUBST_FILE_NAME"

definition mappedDriveLocation :: "TCHAR \<Rightarrow> wstring" where
  \<comment> \<open>lines 888 to 892\<close>
  "mappedDriveLocation driveLetter = [driveLetter, COLON, BACKSLASH]"

definition repair_slot ::
  "bool \<Rightarrow> SUBST_NODE \<Rightarrow> os_reply list \<Rightarrow> event list \<times> (os_reply list, CINT) ctl" where
  \<comment> \<open>lines 865 to 926: what the body of the second loop does for a slot whose mapped path
      is not its source directory. \<open>Next\<close>: the loop goes round again with the same slot
      (\<^verbatim>\<open>continue\<close>, or the end of the body after the assertion)\<close>
  "repair_slot NDEBUG pListNode rs =
     (let substFileLock = drive_lock_file (szDriveLetter pListNode) in
      case rs of
        FileOpen substFileLockHandle lastError # rs1 \<Rightarrow>
          if substFileLockHandle = INVALID_HANDLE_VALUE
          then
            (if lastError = ERROR_SHARING_VIOLATION
             then ([EvCreateFile substFileLock substFileLockHandle lastError,
                    EvPrint ''Warning: Lock file for drive is in use by another process. Waiting...'',
                    EvSleep RUN_IN_SUBST_TIMEOUT],
                   Next rs1)
             else
               (case rs1 of
                  FileAttributes srcAttr # rs2 \<Rightarrow>
                    if srcAttr = INVALID_FILE_ATTRIBUTES
                       \<or> srcAttr AND FILE_ATTRIBUTE_DIRECTORY = 0
                    then
                      (case rs2 of
                         ProcessRun unmapRun # rs3 \<Rightarrow>
                           ([EvCreateFile substFileLock substFileLockHandle lastError,
                             EvGetFileAttributes (mappedDriveLocation (szDriveLetter pListNode)) srcAttr,
                             EvPrint (if srcAttr = INVALID_FILE_ATTRIBUTES
                                      then ''Warning: The subst drive does not seem to be using the sharing protocol. Forcing a manual release of the drive.''
                                      else ''Warning: The subst drive does not seem to be using the sharing protocol - mapped location not a directory. Forcing a manual release of the drive.'')]
                            @ fst (UnmapDrive pListNode unmapRun),
                            Next rs3)
                       | _ \<Rightarrow>
                           ([EvCreateFile substFileLock substFileLockHandle lastError,
                             EvGetFileAttributes (mappedDriveLocation (szDriveLetter pListNode)) srcAttr],
                            Stop Blocked))
                    else ([EvCreateFile substFileLock substFileLockHandle lastError,
                           EvGetFileAttributes (mappedDriveLocation (szDriveLetter pListNode)) srcAttr,
                           EvPrint ''Error: Could not get exclusive write lock for the substituted drive lock file.''],
                          Ret 1)
                | _ \<Rightarrow> ([EvCreateFile substFileLock substFileLockHandle lastError],
                         Stop Blocked)))
          else if szMappedPath pListNode \<noteq> None \<and> szSourceDirectory pListNode = None
          then ([EvCreateFile substFileLock substFileLockHandle lastError],
                Stop AccessViolation)
          else if szMappedPath pListNode \<noteq> None
                  \<and> szSourceDirectory pListNode \<noteq> szMappedPath pListNode
          then
            (case rs1 of
               ProcessRun unmapRun # rs2 \<Rightarrow>
                 ([EvCreateFile substFileLock substFileLockHandle lastError]
                  @ fst (UnmapDrive pListNode unmapRun)
                  @ [EvCloseHandle substFileLockHandle],
                  Next rs2)
             | _ \<Rightarrow> ([EvCreateFile substFileLock substFileLockHandle lastError],
                      Stop Blocked))
          else
            ([EvCreateFile substFileLock substFileLockHandle lastError,
              EvAssert ''We should never be here!!!''],
             if NDEBUG then Next rs1 else Stop AssertionFailed)
      | _ \<Rightarrow> ([], Stop Blocked))"

definition map_slot ::
  "bool \<Rightarrow> nat \<Rightarrow> SUBST_NODE \<Rightarrow> subst_table \<Rightarrow> os_reply list
   \<Rightarrow> event list \<times> (bool \<times> subst_table \<times> os_reply list, CINT) ctl" where
  \<comment> \<open>the body of the second loop for the slot at index \<open>i\<close>, which is not null (lines 853
      to 926). The values of \<^verbatim>\<open>MapDrive\<close> and \<^verbatim>\<open>GetMappedPaths\<close> are not looked at. The
      boolean of \<open>Next\<close> tells whether \<open>i\<close> was incremented (line 861) or the loop goes
      round with the same \<open>i\<close>\<close>
  "map_slot NDEBUG i pListNode pOrderedSubstList rs =
     (case rs of
        ProcessRun mapRun # EnumRun enumRun # rs2 \<Rightarrow>
          (case MapDrive pListNode mapRun of
             (evs1, Inl h) \<Rightarrow> (evs1, Stop h)
           | (evs1, Inr mapRet) \<Rightarrow>
               (case GetMappedPaths pOrderedSubstList enumRun of
                  (evs2, Inl h) \<Rightarrow> (evs1 @ evs2, Stop h)
                | (evs2, Inr (enumRet, tbl)) \<Rightarrow>
                    (case tbl ! i of
                       None \<Rightarrow> (evs1 @ evs2, Stop AccessViolation)
                     | Some node \<Rightarrow>
                         if szSourceDirectory node \<noteq> None \<and> szMappedPath node \<noteq> None
                            \<and> szSourceDirectory node = szMappedPath node
                         then (evs1 @ evs2, Next (True, tbl, rs2))
                         else
                           (case repair_slot NDEBUG node rs2 of
                              (evs3, Next rs3) \<Rightarrow> (evs1 @ evs2 @ evs3, Next (False, tbl, rs3))
                            | (evs3, Ret v) \<Rightarrow> (evs1 @ evs2 @ evs3, Ret v)
                            | (evs3, Stop h) \<Rightarrow> (evs1 @ evs2 @ evs3, Stop h)))))
      | _ \<Rightarrow> ([], Stop Blocked))"

lemma repair_slot_consumes:
  "repair_slot NDEBUG pListNode rs = (evs, Next rs') \<Longrightarrow> length rs' < length rs"
  unfolding repair_slot_def
  by (auto simp: Let_def split: list.splits os_reply.splits if_splits)

lemma map_slot_consumes:
  "map_slot NDEBUG i pListNode tbl rs = (evs, Next (adv, tbl', rs')) \<Longrightarrow> length rs' < length rs"
  unfolding map_slot_def
  by (auto simp: Let_def dest!: repair_slot_consumes
        split: list.splits os_reply.splits prod.splits sum.splits option.splits if_splits
               ctl.splits)

function map_phase ::
  "bool \<Rightarrow> nat \<Rightarrow> subst_table \<Rightarrow> os_reply list
   \<Rightarrow> event list \<times> (subst_table \<times> os_reply list, CINT) ctl" where
  \<comment> \<open>the second loop, from index \<open>i\<close> on\<close>
  "map_phase NDEBUG i pOrderedSubstList rs =
     (if NUMBER_DEFINABLE_SUBST \<le> i then ([], Next (pOrderedSubstList, rs))
      else
        (case pOrderedSubstList ! i of
           None \<Rightarrow> map_phase NDEBUG (i + 1) pOrderedSubstList rs
         | Some pListNode \<Rightarrow>
             (case map_slot NDEBUG i pListNode pOrderedSubstList rs of
                (evs, Next (advance, tbl, rs')) \<Rightarrow>
                  (let (evs', r) = map_phase NDEBUG (if advance then i + 1 else i) tbl rs'
                   in (evs @ evs', r))
              | (evs, Ret v) \<Rightarrow> (evs, Ret v)
              | (evs, Stop h) \<Rightarrow> (evs, Stop h))))"
  by pat_completeness auto
termination
proof (relation "measure (\<lambda>(NDEBUG, i, pOrderedSubstList, rs).
                            length rs + (NUMBER_DEFINABLE_SUBST - i))", goal_cases)
  case 1
  show ?case by simp
next
  case 2
  then show ?case by simp
next
  case 3
  then show ?case
    by (auto dest!: map_slot_consumes [OF sym])
qed

declare map_phase.simps [simp del]

subsection \<open>The third loop: unmap and unlock (lines 933 to 954)\<close>

fun cleanup ::
  "bool \<Rightarrow> subst_table \<Rightarrow> CINT \<Rightarrow> os_reply list \<Rightarrow> event list \<times> (halt + CINT)" where
  \<comment> \<open>over the slots still to visit; the value is what \<^verbatim>\<open>SubstDrivesAndExecute\<close> returns\<close>
  "cleanup NDEBUG [] errorCode rs = ([], Inr errorCode)"
| "cleanup NDEBUG (None # rest) errorCode rs = cleanup NDEBUG rest errorCode rs"
| "cleanup NDEBUG (Some pListNode # rest) errorCode rs =
     (case rs of
        ProcessRun unmapRun # rs' \<Rightarrow>
          (let evs = LogToFile pListNode
                       (DoneUnsubst (szDriveLetter pListNode) (szSourceDirectory pListNode))
                     @ fst (UnmapDrive pListNode unmapRun)
           in if hLockFile pListNode = INVALID_HANDLE_VALUE
              then
                (if NDEBUG
                 then (evs @ [EvAssert ''Invalid state. Lock file handle should not be invalid.'']
                       @ LogToFile pListNode (InvalidLockState (szSourceDirectory pListNode)),
                       Inr 1)
                 else (evs @ [EvAssert ''Invalid state. Lock file handle should not be invalid.''],
                       Inl AssertionFailed))
              else
                (let (evs', r) = cleanup NDEBUG rest errorCode rs'
                 in (evs @ [EvCloseHandle (hLockFile pListNode)] @ evs', r)))
      | _ \<Rightarrow>
          (LogToFile pListNode
             (DoneUnsubst (szDriveLetter pListNode) (szSourceDirectory pListNode)),
           Inl Blocked))"

subsection \<open>The function and the entry point\<close>

definition setup_drives ::
  "bool \<Rightarrow> subst_table \<Rightarrow> os_reply list
   \<Rightarrow> event list \<times> (subst_table \<times> os_reply list, CINT) ctl" where
  \<comment> \<open>the two loops of the block \<^verbatim>\<open>if (pSubstList != nullptr)\<close>, one after the other\<close>
  "setup_drives NDEBUG pOrderedSubstList rs =
     (case lock_phase 0 pOrderedSubstList rs of
        (evs, Next (tbl, rs')) \<Rightarrow>
          (let (evs', r) = map_phase NDEBUG 0 tbl rs' in (evs @ evs', r))
      | (evs, Ret v) \<Rightarrow> (evs, Ret v)
      | (evs, Stop h) \<Rightarrow> (evs, Stop h))"

definition execute_and_cleanup ::
  "bool \<Rightarrow> wstring list \<Rightarrow> int \<Rightarrow> subst_table \<Rightarrow> os_reply list
   \<Rightarrow> event list \<times> (halt + CINT)" where
  \<comment> \<open>lines 930 to 956: the child process, then the third loop\<close>
  "execute_and_cleanup NDEBUG argv executableToRunIndex pOrderedSubstList rs =
     (case ExecuteProcess argv executableToRunIndex pOrderedSubstList rs of
        (evs1, Inr (errorCode, rs1)) \<Rightarrow>
          (let (evs2, r) = cleanup NDEBUG pOrderedSubstList errorCode rs1
           in (evs1 @ evs2, r))
      | (evs1, Inl h) \<Rightarrow> (evs1, Inl h))"

definition SubstDrivesAndExecute ::
  "bool \<Rightarrow> wstring list \<Rightarrow> subst_list \<Rightarrow> subst_table \<Rightarrow> int \<Rightarrow> os_reply list
   \<Rightarrow> event list \<times> (halt + CINT)" where
  \<comment> \<open>\<^verbatim>\<open>assert(pSubstList != nullptr)\<close> comes first (line 759); the two loops are run only
      if the list is not empty (line 766)\<close>
  "SubstDrivesAndExecute NDEBUG argv pSubstList pOrderedSubstList executableToRunIndex rs =
     (if pSubstList = []
      then
        (if NDEBUG
         then (let (evs, r) = execute_and_cleanup NDEBUG argv executableToRunIndex
                                pOrderedSubstList rs
               in (EvAssert ''pSubstList != nullptr'' # evs, r))
         else ([EvAssert ''pSubstList != nullptr''], Inl AssertionFailed))
      else
        (case setup_drives NDEBUG pOrderedSubstList rs of
           (evs, Next (tbl, rs1)) \<Rightarrow>
             (let (evs1, r) = execute_and_cleanup NDEBUG argv executableToRunIndex tbl rs1
              in (evs @ evs1, r))
         | (evs, Ret v) \<Rightarrow> (evs, Inr v)
         | (evs, Stop h) \<Rightarrow> (evs, Inl h)))"

definition main ::
  "bool \<Rightarrow> wstring list \<Rightarrow> os_reply list \<Rightarrow> event list \<times> (halt + CINT)" where
  \<comment> \<open>\<^verbatim>\<open>_tmain\<close>: the value is the exit code of the process\<close>
  "main NDEBUG argv rs =
     (case InitializeState of
        (pSubstList, pOrderedSubstList, executableToRunIndex) \<Rightarrow>
          (case ParseSubstSourcesAndTargets argv pSubstList pOrderedSubstList
                  executableToRunIndex rs of
             (evs, Inl h) \<Rightarrow> (evs, Inl h)
           | (evs, Inr (True, _)) \<Rightarrow> (evs, Inr 1)
           | (evs, Inr (False, pSubstList, pOrderedSubstList, executableToRunIndex, rs')) \<Rightarrow>
               (let (evs', ret) = SubstDrivesAndExecute NDEBUG argv pSubstList pOrderedSubstList
                                    executableToRunIndex rs'
                in (evs @ evs', ret))))"

section \<open>Reading a run\<close>

text \<open>
  What the properties say about a table and about the events of a run: the slots that are
  not null in the order of the array, the lock file of a slot, the files a run opened, the
  letters it mapped, the events of the third loop.
\<close>

fun requested :: "subst_table \<Rightarrow> SUBST_NODE list" where
  "requested [] = []"
| "requested (None # rest) = requested rest"
| "requested (Some node # rest) = node # requested rest"

definition source_lock_file :: "SUBST_NODE \<Rightarrow> wstring" where
  "source_lock_file node =
     (case szSourceDirectory node of None \<Rightarrow> [] | Some dir \<Rightarrow> dir) @ SUBST_FILE_NAME"

fun opened_file :: "event \<Rightarrow> wstring list" where
  "opened_file (EvCreateFile path h e) = (if h \<noteq> INVALID_HANDLE_VALUE then [path] else [])"
| "opened_file _ = []"

definition opened_files :: "event list \<Rightarrow> wstring list" where
  "opened_files evs = concat (map opened_file evs)"

fun mapped_letter :: "event \<Rightarrow> TCHAR list" where
  "mapped_letter (EvMapDrive letter cmd run) = [letter]"
| "mapped_letter _ = []"

definition mapped_letters :: "event list \<Rightarrow> TCHAR list" where
  "mapped_letters evs = concat (map mapped_letter evs)"

definition wf_table :: "subst_table \<Rightarrow> bool" where
  "wf_table tbl \<longleftrightarrow>
     length tbl = NUMBER_DEFINABLE_SUBST
     \<and> (\<forall>i < NUMBER_DEFINABLE_SUBST. \<forall>node. tbl ! i = Some node \<longrightarrow>
           unat (szDriveLetter node) = 65 + i \<and> szSourceDirectory node \<noteq> None)"

fun is_cleanup :: "event \<Rightarrow> bool" where
  "is_cleanup (EvUnmapDrive letter cmd run) = True"
| "is_cleanup (EvCloseHandle h) = True"
| "is_cleanup _ = False"

fun is_CreateProcess :: "event \<Rightarrow> bool" where
  "is_CreateProcess (EvCreateProcess cmd dir run) = True"
| "is_CreateProcess _ = False"

definition strip_mapped :: "subst_table \<Rightarrow> subst_table" where
  "strip_mapped tbl = map (map_option (\<lambda>n. n\<lparr>szMappedPath := None\<rparr>)) tbl"

section \<open>Example inputs\<close>

text \<open>
  The command line \<^verbatim>\<open>RunInSubst.exe X=c:\Work Y=C:\work\sub cmd.exe\<close>, the table the parser
  builds from it, and what the substitution tool prints when \<^verbatim>\<open>X:\<close>, and then \<^verbatim>\<open>Y:\<close> as
  well, are mapped to these directories.
\<close>

definition bytes :: "string \<Rightarrow> 8 word list" where
  "bytes s = map of_char s"

definition dir_work :: wstring where
  "dir_work = wstr ''c:'' @ [BACKSLASH] @ wstr ''work'' @ [BACKSLASH]"

definition dir_sub :: wstring where
  "dir_sub = wstr ''c:'' @ [BACKSLASH] @ wstr ''work'' @ [BACKSLASH] @ wstr ''sub'' @ [BACKSLASH]"

definition argv_XY :: "wstring list" where
  "argv_XY =
     [wstr ''RunInSubst.exe'',
      wstr ''X=c:'' @ [BACKSLASH] @ wstr ''Work'',
      wstr ''Y=C:'' @ [BACKSLASH] @ wstr ''work'' @ [BACKSLASH] @ wstr ''sub'',
      wstr ''cmd.exe'']"

definition node_X :: SUBST_NODE where
  "node_X = new_SUBST_NODE 0x58 dir_work"

definition node_Y :: SUBST_NODE where
  "node_Y = new_SUBST_NODE 0x59 dir_sub"

definition table2 :: "SUBST_NODE \<Rightarrow> SUBST_NODE \<Rightarrow> subst_table" where
  \<comment> \<open>a table with the slots of \<^verbatim>\<open>X\<close> and \<^verbatim>\<open>Y\<close> only\<close>
  "table2 x y = (replicate NUMBER_DEFINABLE_SUBST None)[23 := Some x, 24 := Some y]"

definition table_XY :: subst_table where
  "table_XY = table2 node_X node_Y"

definition argv_XX :: "wstring list" where
  \<comment> \<open>\<^verbatim>\<open>RunInSubst.exe X=c:\a x=C:\B cmd.exe\<close>: the letter \<^verbatim>\<open>X\<close> twice\<close>
  "argv_XX =
     [wstr ''RunInSubst.exe'',
      wstr ''X=c:'' @ [BACKSLASH] @ wstr ''a'',
      wstr ''x=C:'' @ [BACKSLASH] @ wstr ''B'',
      wstr ''cmd.exe'']"

definition listing_X :: "8 word list" where
  \<comment> \<open>\<^verbatim>\<open>X:\: => C:\work\<close> and the end of the line\<close>
  "listing_X = bytes ''X:'' @ [0x5C] @ bytes '': => C:'' @ [0x5C] @ bytes ''work'' @ [0x0D, 0x0A]"

definition listing_Y :: "8 word list" where
  "listing_Y = bytes ''Y:'' @ [0x5C] @ bytes '': => C:'' @ [0x5C] @ bytes ''work'' @ [0x5C]
               @ bytes ''sub'' @ [0x0D, 0x0A]"

definition cwd_deep :: wstring where
  \<comment> \<open>\<^verbatim>\<open>C:\Work\sub\deep\<close>\<close>
  "cwd_deep = wstr ''C:'' @ [BACKSLASH] @ wstr ''Work'' @ [BACKSLASH] @ wstr ''sub''
              @ [BACKSLASH] @ wstr ''deep''"

definition replies_XY :: "os_reply list" where
  \<comment> \<open>both directories exist, both lock files can be opened, both drives are mapped at the
      first attempt, the child exits with 0, both drives are unmapped\<close>
  "replies_XY =
     [FileAttributes 0x10, FileOpen 100 0, FileAttributes 0x10, FileOpen 104 0,
      ProcessRun (Exited 0), EnumRun (EnumOutput [listing_X]),
      ProcessRun (Exited 0), EnumRun (EnumOutput [listing_X @ listing_Y]),
      CurrentDirectory cwd_deep,
      ProcessRun (Exited 0), ProcessRun (Exited 0), ProcessRun (Exited 0)]"

section \<open>Properties\<close>

subsection \<open>The first loop\<close>

lemma opened_files_simps [simp]:
  "opened_files [] = []"
  "opened_files (ev # evs) = opened_file ev @ opened_files evs"
  "opened_files (evs @ evs') = opened_files evs @ opened_files evs'"
  by (simp_all add: opened_files_def)

lemma mapped_letters_simps [simp]:
  "mapped_letters [] = []"
  "mapped_letters (ev # evs) = mapped_letter ev @ mapped_letters evs"
  "mapped_letters (evs @ evs') = mapped_letters evs @ mapped_letters evs'"
  by (simp_all add: mapped_letters_def)

lemma LogToFile_quiet [simp]:
  "opened_files (LogToFile n l) = []" "mapped_letters (LogToFile n l) = []"
  by (simp_all add: LogToFile_def)

lemma acquire_source_lock_events:
  "acquire_source_lock p rs = (evs, r) \<Longrightarrow>
     mapped_letters evs = []
     \<and> (\<forall>h rs'. r = Next (h, rs') \<longrightarrow> opened_files evs = [p] \<and> h \<noteq> INVALID_HANDLE_VALUE
                      \<and> (\<exists>e. EvCreateFile p h e \<in> set evs))
     \<and> ((\<forall>x. r \<noteq> Next x) \<longrightarrow> opened_files evs = [])
     \<and> (\<forall>v. r = Ret v \<longrightarrow> v = 1)"
proof (induction p rs arbitrary: evs r rule: acquire_source_lock.induct)
  case (1 p h e rs)
  then show ?case
    by (auto split: if_splits prod.splits)
qed simp_all

lemma lock_slot_events:
  "lock_slot n rs = (evs, r) \<Longrightarrow>
     mapped_letters evs = []
     \<and> (\<forall>n' rs'. r = Next (n', rs') \<longrightarrow> opened_files evs = [source_lock_file n]
                      \<and> hLockFile n' \<noteq> INVALID_HANDLE_VALUE \<and> n' = n\<lparr>hLockFile := hLockFile n'\<rparr>
                      \<and> (\<exists>e. EvCreateFile (source_lock_file n) (hLockFile n') e \<in> set evs))
     \<and> ((\<forall>x. r \<noteq> Next x) \<longrightarrow> opened_files evs = [])
     \<and> (\<forall>v. r = Ret v \<longrightarrow> v = 1)"
  unfolding lock_slot_def source_lock_file_def
  by (auto simp: Let_def dest!: acquire_source_lock_events
        split: option.splits list.splits os_reply.splits if_splits prod.splits ctl.splits)

lemma requested_drop:
  "i < length tbl \<Longrightarrow>
   requested (drop i tbl) =
     (case tbl ! i of None \<Rightarrow> [] | Some n \<Rightarrow> [n]) @ requested (drop (Suc i) tbl)"
  by (simp add: Cons_nth_drop_Suc [symmetric] split: option.splits)

lemma set_requested: "set (requested tbl) = {n. Some n \<in> set tbl}"
  by (induction tbl rule: requested.induct) auto

lemma lock_phase_events:
  "lock_phase i tbl rs = (evs, r) \<Longrightarrow> length tbl = NUMBER_DEFINABLE_SUBST \<Longrightarrow>
     mapped_letters evs = []
     \<and> prefix (opened_files evs) (map source_lock_file (requested (drop i tbl)))
     \<and> ((\<exists>x. r = Next x) \<longrightarrow> opened_files evs = map source_lock_file (requested (drop i tbl)))
     \<and> (\<forall>v. r = Ret v \<longrightarrow> v = 1)"
proof (induction i tbl rs arbitrary: evs r rule: lock_phase.induct)
  case (1 i tbl rs)
  show ?case
  proof (cases "NUMBER_DEFINABLE_SUBST \<le> i")
    case True
    with "1.prems" show ?thesis
      by (auto simp: lock_phase.simps)
  next
    case False
    then have i: "i < length tbl" using "1.prems" by simp
    show ?thesis
    proof (cases "tbl ! i")
      case None
      with False "1.prems" have "lock_phase (i + 1) tbl rs = (evs, r)"
        by (simp add: lock_phase.simps)
      from "1.IH"(1) [OF False None this "1.prems"(2)] show ?thesis
        using requested_drop [OF i] None by simp
    next
      case (Some n)
      obtain evs1 r1 where ls: "lock_slot n rs = (evs1, r1)" by (cases "lock_slot n rs")
      note ev1 = lock_slot_events [OF ls]
      show ?thesis
      proof (cases r1)
        case (Next p)
        obtain n' rs' where p: "p = (n', rs')" by (cases p)
        obtain evs2 r2 where lp: "lock_phase (i + 1) (tbl[i := Some n']) rs' = (evs2, r2)"
          by (cases "lock_phase (i + 1) (tbl[i := Some n']) rs'")
        from False Some ls Next p lp "1.prems" have res: "evs = evs1 @ evs2" "r = r2"
          by (simp_all add: lock_phase.simps)
        have "length (tbl[i := Some n']) = NUMBER_DEFINABLE_SUBST" using "1.prems" by simp
        from "1.IH"(2) [OF False Some ls [symmetric] Next p [symmetric] lp this]
        have ih: "mapped_letters evs2 = []"
          "prefix (opened_files evs2) (map source_lock_file (requested (drop (Suc i) tbl)))"
          "(\<exists>x. r2 = Next x) \<longrightarrow> opened_files evs2 = map source_lock_file (requested (drop (Suc i) tbl))"
          "\<forall>v. r2 = Ret v \<longrightarrow> v = 1"
          by simp_all
        from ev1 Next p have o1: "opened_files evs1 = [source_lock_file n]" "mapped_letters evs1 = []"
          by simp_all
        show ?thesis
          using ih o1 res requested_drop [OF i] Some
          by auto
      next
        case (Ret v)
        with False Some ls "1.prems" have "evs = evs1" "r = Ret v"
          by (simp_all add: lock_phase.simps)
        with ev1 Ret show ?thesis by simp
      next
        case (Stop h)
        with False Some ls "1.prems" have "evs = evs1" "r = Stop h"
          by (simp_all add: lock_phase.simps)
        with ev1 Stop show ?thesis by simp
      qed
    qed
  qed
qed

lemma lock_phase_induct [consumes 1, case_names finished skipped locked returned halted]:
  assumes "lock_phase i tbl rs = (evs, r)"
    and "\<And>i tbl rs. NUMBER_DEFINABLE_SUBST \<le> i \<Longrightarrow> P i tbl rs [] (Next (tbl, rs))"
    and "\<And>i tbl rs evs r. i < NUMBER_DEFINABLE_SUBST \<Longrightarrow> tbl ! i = None \<Longrightarrow>
           lock_phase (Suc i) tbl rs = (evs, r) \<Longrightarrow> P (Suc i) tbl rs evs r \<Longrightarrow> P i tbl rs evs r"
    and "\<And>i tbl rs n evs1 n' rs' evs2 r. i < NUMBER_DEFINABLE_SUBST \<Longrightarrow> tbl ! i = Some n \<Longrightarrow>
           lock_slot n rs = (evs1, Next (n', rs')) \<Longrightarrow>
           lock_phase (Suc i) (tbl[i := Some n']) rs' = (evs2, r) \<Longrightarrow>
           P (Suc i) (tbl[i := Some n']) rs' evs2 r \<Longrightarrow> P i tbl rs (evs1 @ evs2) r"
    and "\<And>i tbl rs n evs1 v. i < NUMBER_DEFINABLE_SUBST \<Longrightarrow> tbl ! i = Some n \<Longrightarrow>
           lock_slot n rs = (evs1, Ret v) \<Longrightarrow> P i tbl rs evs1 (Ret v)"
    and "\<And>i tbl rs n evs1 h. i < NUMBER_DEFINABLE_SUBST \<Longrightarrow> tbl ! i = Some n \<Longrightarrow>
           lock_slot n rs = (evs1, Stop h) \<Longrightarrow> P i tbl rs evs1 (Stop h)"
  shows "P i tbl rs evs r"
  using assms(1)
proof (induction i tbl rs arbitrary: evs r rule: lock_phase.induct)
  case (1 i tbl rs)
  show ?case
  proof (cases "NUMBER_DEFINABLE_SUBST \<le> i")
    case True
    with "1.prems" assms(2) [OF True, of tbl rs] show ?thesis
      by (auto simp: lock_phase.simps)
  next
    case False
    then have i: "i < NUMBER_DEFINABLE_SUBST" by simp
    show ?thesis
    proof (cases "tbl ! i")
      case None
      with False "1.prems" have lp: "lock_phase (Suc i) tbl rs = (evs, r)"
        by (simp add: lock_phase.simps)
      then have "lock_phase (i + 1) tbl rs = (evs, r)" by simp
      from "1.IH"(1) [OF False None this] have "P (Suc i) tbl rs evs r" by simp
      with assms(3) [OF i None lp] show ?thesis .
    next
      case (Some n)
      obtain evs1 r1 where ls: "lock_slot n rs = (evs1, r1)" by (cases "lock_slot n rs")
      show ?thesis
      proof (cases r1)
        case (Next p)
        obtain n' rs' where p: "p = (n', rs')" by (cases p)
        obtain evs2 r2 where lp: "lock_phase (i + 1) (tbl[i := Some n']) rs' = (evs2, r2)"
          by (cases "lock_phase (i + 1) (tbl[i := Some n']) rs'")
        from False Some ls Next p lp "1.prems" have res: "evs = evs1 @ evs2" "r = r2"
          by (simp_all add: lock_phase.simps)
        from "1.IH"(2) [OF False Some ls [symmetric] Next p [symmetric] lp]
        have "P (Suc i) (tbl[i := Some n']) rs' evs2 r2" by simp
        with assms(4) [OF i Some ls [unfolded Next p]] lp res show ?thesis by simp
      next
        case (Ret v)
        with False Some ls "1.prems" have "evs = evs1" "r = Ret v"
          by (simp_all add: lock_phase.simps)
        with assms(5) [OF i Some ls [unfolded Ret]] show ?thesis by simp
      next
        case (Stop h)
        with False Some ls "1.prems" have "evs = evs1" "r = Stop h"
          by (simp_all add: lock_phase.simps)
        with assms(6) [OF i Some ls [unfolded Stop]] show ?thesis by simp
      qed
    qed
  qed
qed

lemma acquire_source_lock_quiet:
  "acquire_source_lock p rs = (evs, r) \<Longrightarrow> \<forall>e \<in> set evs. \<not> is_cleanup e \<and> \<not> is_CreateProcess e"
proof (induction p rs arbitrary: evs r rule: acquire_source_lock.induct)
  case (1 p h e rs)
  then show ?case
    by (auto split: if_splits prod.splits)
qed simp_all

lemma lock_slot_quiet:
  "lock_slot n rs = (evs, r) \<Longrightarrow> \<forall>e \<in> set evs. \<not> is_cleanup e \<and> \<not> is_CreateProcess e"
  unfolding lock_slot_def
  by (auto simp: Let_def LogToFile_def dest!: acquire_source_lock_quiet
        split: option.splits list.splits os_reply.splits if_splits prod.splits ctl.splits)

lemma lock_phase_table:
  "lock_phase i tbl rs = (evs, r) \<Longrightarrow> length tbl = NUMBER_DEFINABLE_SUBST \<Longrightarrow>
   (\<forall>e \<in> set evs. \<not> is_cleanup e \<and> \<not> is_CreateProcess e)
   \<and> (\<forall>tbl' rs'. r = Next (tbl', rs') \<longrightarrow>
        length tbl' = length tbl
        \<and> (\<forall>j < length tbl.
              (j < i \<longrightarrow> tbl' ! j = tbl ! j)
              \<and> (i \<le> j \<longrightarrow> tbl ! j = None \<longrightarrow> tbl' ! j = None)
              \<and> (i \<le> j \<longrightarrow> (\<forall>n. tbl ! j = Some n \<longrightarrow>
                   (\<exists>h e. h \<noteq> INVALID_HANDLE_VALUE \<and> tbl' ! j = Some (n\<lparr>hLockFile := h\<rparr>)
                      \<and> EvCreateFile (source_lock_file n) h e \<in> set evs)))))"
proof (induction rule: lock_phase_induct)
  case (finished i tbl rs)
  then show ?case by simp
next
  case (skipped i tbl rs evs r)
  note IH = skipped.IH [OF skipped.prems]
  have A: "\<forall>e \<in> set evs. \<not> is_cleanup e \<and> \<not> is_CreateProcess e"
    using IH by simp
  have B: "length tbl' = length tbl" if "r = Next (tbl', rs'')" for tbl' rs''
    using IH that by simp
  have C: "(j < i \<longrightarrow> tbl' ! j = tbl ! j)
         \<and> (i \<le> j \<longrightarrow> tbl ! j = None \<longrightarrow> tbl' ! j = None)
         \<and> (i \<le> j \<longrightarrow> (\<forall>n. tbl ! j = Some n \<longrightarrow>
               (\<exists>h e. h \<noteq> INVALID_HANDLE_VALUE \<and> tbl' ! j = Some (n\<lparr>hLockFile := h\<rparr>)
                  \<and> EvCreateFile (source_lock_file n) h e \<in> set evs)))"
    if r: "r = Next (tbl', rs'')" and j: "j < length tbl" for tbl' rs'' j
  proof -
    from IH r j have ih:
      "j < Suc i \<longrightarrow> tbl' ! j = tbl ! j"
      "Suc i \<le> j \<longrightarrow> tbl ! j = None \<longrightarrow> tbl' ! j = None"
      "Suc i \<le> j \<longrightarrow> (\<forall>n. tbl ! j = Some n \<longrightarrow>
          (\<exists>h e. h \<noteq> INVALID_HANDLE_VALUE \<and> tbl' ! j = Some (n\<lparr>hLockFile := h\<rparr>)
             \<and> EvCreateFile (source_lock_file n) h e \<in> set evs))"
      by simp_all
    show ?thesis
      using ih skipped(2) by (cases "j = i") auto
  qed
  from A B C show ?case by blast
next
  case (locked i tbl rs n evs1 n' rs' evs2 r)
  note ls = lock_slot_events [OF locked(3)]
  note quiet1 = lock_slot_quiet [OF locked(3)]
  from locked.prems have len: "length (tbl[i := Some n']) = NUMBER_DEFINABLE_SUBST" by simp
  note IH = locked.IH [OF len]
  from ls obtain e where n': "hLockFile n' \<noteq> INVALID_HANDLE_VALUE" "n' = n\<lparr>hLockFile := hLockFile n'\<rparr>"
    "EvCreateFile (source_lock_file n) (hLockFile n') e \<in> set evs1"
    by auto
  have A: "\<forall>e \<in> set (evs1 @ evs2). \<not> is_cleanup e \<and> \<not> is_CreateProcess e"
    using quiet1 IH by auto
  have B: "length tbl' = length tbl" if "r = Next (tbl', rs'')" for tbl' rs''
    using IH that by simp
  have C: "(j < i \<longrightarrow> tbl' ! j = tbl ! j)
         \<and> (i \<le> j \<longrightarrow> tbl ! j = None \<longrightarrow> tbl' ! j = None)
         \<and> (i \<le> j \<longrightarrow> (\<forall>n. tbl ! j = Some n \<longrightarrow>
               (\<exists>h e. h \<noteq> INVALID_HANDLE_VALUE \<and> tbl' ! j = Some (n\<lparr>hLockFile := h\<rparr>)
                  \<and> EvCreateFile (source_lock_file n) h e \<in> set (evs1 @ evs2))))"
    if r: "r = Next (tbl', rs'')" and j: "j < length tbl" for tbl' rs'' j
  proof (cases "j = i")
    case True
    from IH r j True have "tbl' ! j = Some n'" by simp
    with n' True locked(2) show ?thesis
      by (metis UnI1 less_irrefl option.distinct(1) option.inject set_append)
  next
    case False
    from IH r j have ih:
      "j < Suc i \<longrightarrow> tbl' ! j = tbl[i := Some n'] ! j"
      "Suc i \<le> j \<longrightarrow> tbl[i := Some n'] ! j = None \<longrightarrow> tbl' ! j = None"
      "Suc i \<le> j \<longrightarrow> (\<forall>n. tbl[i := Some n'] ! j = Some n \<longrightarrow>
          (\<exists>h e. h \<noteq> INVALID_HANDLE_VALUE \<and> tbl' ! j = Some (n\<lparr>hLockFile := h\<rparr>)
             \<and> EvCreateFile (source_lock_file n) h e \<in> set evs2))"
      by simp_all
    with False show ?thesis by (auto; blast)
  qed
  from A B C show ?case by blast
next
  case (returned i tbl rs n evs1 v)
  then show ?case using lock_slot_quiet by blast
next
  case (halted i tbl rs n evs1 h)
  then show ?case using lock_slot_quiet by blast
qed

subsection \<open>The return value of MapDrive\<close>

lemma MapUnmapSubstExecute_failure:
  "MapUnmapSubstExecute cmd CreateProcessFailed = 1"
  "MapUnmapSubstExecute cmd GetExitCodeProcessFailed = 1"
  "exitCode \<noteq> 0 \<Longrightarrow> MapUnmapSubstExecute cmd (Exited exitCode) = 1"
  by (simp_all add: MapUnmapSubstExecute_def)

text \<open>
  Claim C10. \<^verbatim>\<open>MapDrive\<close> stores the result of \<^verbatim>\<open>MapUnmapSubstExecute\<close> in \<^verbatim>\<open>ret\<close> and then
  returns the constant 0 (line 565). For every node whose source directory is a non-empty
  string (the only nodes it is called with) and however the run of the substitution tool
  went, \<^verbatim>\<open>MapDrive\<close> returns 0, also where \<^verbatim>\<open>MapUnmapSubstExecute\<close> itself reports the
  failure with 1: the tool could not be started, its exit code could not be read, or it
  exited with a code other than 0.
\<close>

theorem MapDrive_returns_zero:
  assumes "szSourceDirectory pSubstNode = Some src" and "src \<noteq> []"
  shows "snd (MapDrive pSubstNode run) = Inr 0
       \<and> snd (MapDrive pSubstNode CreateProcessFailed) = Inr 0
       \<and> snd (MapDrive pSubstNode GetExitCodeProcessFailed) = Inr 0
       \<and> (\<forall>exitCode. snd (MapDrive pSubstNode (Exited exitCode)) = Inr 0)
       \<and> MapUnmapSubstExecute cmd CreateProcessFailed = 1
       \<and> MapUnmapSubstExecute cmd GetExitCodeProcessFailed = 1
       \<and> (\<forall>exitCode. exitCode \<noteq> 0 \<longrightarrow> MapUnmapSubstExecute cmd (Exited exitCode) = 1)"
  using assms
  by (simp add: MapDrive_def MapUnmapSubstExecute_failure)

theorem MapDrive_returns_zero_witness:
  "snd (MapDrive (new_SUBST_NODE 0x58 (wstr ''c:'' @ [BACKSLASH])) (Exited 1)) = Inr 0
   \<and> snd (MapDrive (new_SUBST_NODE 0x58 (wstr ''c:'' @ [BACKSLASH])) CreateProcessFailed) = Inr 0
   \<and> MapUnmapSubstExecute (wstr ''subst '' @ [QUOTE, 0x58, COLON, QUOTE, SPACE, QUOTE]
        @ wstr ''c:'' @ [QUOTE]) (Exited 1) = 1"
  using MapDrive_returns_zero [of "new_SUBST_NODE 0x58 (wstr ''c:'' @ [BACKSLASH])"
      "wstr ''c:'' @ [BACKSLASH]" "Exited 1"
      "wstr ''subst '' @ [QUOTE, 0x58, COLON, QUOTE, SPACE, QUOTE] @ wstr ''c:'' @ [QUOTE]"]
  by (simp add: new_SUBST_NODE_def wstr_def)

subsection \<open>The second loop\<close>

lemma strip_mapped_update:
  "tbl ! k = Some node \<Longrightarrow>
   strip_mapped (tbl[k := Some (node\<lparr>szMappedPath := s\<rparr>)]) = strip_mapped tbl"
proof (cases "k < length tbl")
  case True
  assume "tbl ! k = Some node"
  with True show ?thesis
    by (simp add: strip_mapped_def map_update list_update_same_conv)
next
  case False
  then show ?thesis by (simp add: list_update_beyond)
qed

lemma parse_lines_strip:
  "(\<forall>j tbl'. parse_lines chBuf i tbl = Next (j, tbl') \<longrightarrow> strip_mapped tbl' = strip_mapped tbl)
   \<and> (\<forall>tbl'. parse_lines chBuf i tbl = Ret tbl' \<longrightarrow> strip_mapped tbl' = strip_mapped tbl)"
proof (induction "SUBST_SOURCE_LENGTH - i" arbitrary: i tbl rule: less_induct)
  case less
  have step: "(parse_lines chBuf (Suc (Suc x2a)) T = Next (j', tbl') \<longrightarrow> strip_mapped tbl' = strip_mapped T)
            \<and> (parse_lines chBuf (Suc (Suc x2a)) T = Ret tbl' \<longrightarrow> strip_mapped tbl' = strip_mapped T)"
    if "scan_path chBuf (i + GET_PATH_TARGET_OFFSET) [] = Inr (p, x2a)" "\<not> SUBST_SOURCE_LENGTH \<le> i"
    for p x2a T j' tbl'
  proof -
    from that(1) have "i + GET_PATH_TARGET_OFFSET \<le> x2a" by (rule scan_path_index)
    with that(2) have "SUBST_SOURCE_LENGTH - Suc (Suc x2a) < SUBST_SOURCE_LENGTH - i" by simp
    from less [OF this] show ?thesis by blast
  qed
  show ?case
    apply (subst parse_lines.simps)
    apply (subst (2) parse_lines.simps)
    apply (auto simp: Let_def wcscpy_s_def strip_mapped_update
                split: if_splits sum.splits prod.splits option.splits
                dest: step)
    done
qed


lemma read_chunks_strip:
  "(read_chunks chBuf chunks tbl = Next tbl' \<longrightarrow> strip_mapped tbl' = strip_mapped tbl)
   \<and> (read_chunks chBuf chunks tbl = Ret tbl' \<longrightarrow> strip_mapped tbl' = strip_mapped tbl)"
proof (induction chunks arbitrary: chBuf tbl)
  case Nil
  then show ?case by simp
next
  case (Cons chunk chunks)
  define cb where "cb = (\<lambda>k. if k < length chunk then chunk ! k else chBuf k)(length chunk := 0)"
  show ?case
  proof (cases "chunk = [] \<or> SUBST_SOURCE_LENGTH \<le> length chunk")
    case True
    then show ?thesis by auto
  next
    case False
    show ?thesis
    proof (cases "parse_lines cb 0 tbl")
      case (Next p)
      obtain i tbl1 where p: "p = (i, tbl1)" by (cases p)
      from Next p parse_lines_strip [of cb 0 tbl] have s1: "strip_mapped tbl1 = strip_mapped tbl"
        by simp
      show ?thesis
      proof (cases "cb i \<noteq> 0")
        case True
        with False Next p s1 show ?thesis by (auto simp: Let_def cb_def)
      next
        case nz: False
        with False Next p have "read_chunks chBuf (chunk # chunks) tbl = read_chunks cb chunks tbl1"
          by (simp add: Let_def cb_def)
        with Cons.IH [of cb tbl1] s1 show ?thesis by simp
      qed
    next
      case (Ret t)
      with False parse_lines_strip [of cb 0 tbl] show ?thesis
        by (auto simp: Let_def cb_def)
    next
      case (Stop h)
      with False show ?thesis by (simp add: Let_def cb_def)
    qed
  qed
qed

lemma GetMappedPaths_strip:
  "GetMappedPaths tbl run = (evs, r) \<Longrightarrow>
   (evs = [EvGetMappedPaths run] \<or> (\<exists>msg. evs = [EvGetMappedPaths run, EvPrint msg]))
   \<and> (\<forall>ret tbl'. r = Inr (ret, tbl') \<longrightarrow> strip_mapped tbl' = strip_mapped tbl)"
  using read_chunks_strip [of "\<lambda>k. 0" _ tbl]
  by (auto simp: GetMappedPaths_def split: enum_run.splits ctl.splits)

lemma repair_slot_facts:
  "repair_slot nd n rs = (evs, r) \<Longrightarrow>
     mapped_letters evs = []
   \<and> (\<forall>e \<in> set evs. \<not> is_CreateProcess e)
   \<and> (\<forall>v. r = Ret v \<longrightarrow> v = 1)"
  unfolding repair_slot_def UnmapDrive_def
  by (auto simp: Let_def split: list.splits os_reply.splits if_splits)

lemma map_slot_facts:
  "map_slot nd i n tbl rs = (evs, r) \<Longrightarrow>
     (evs = [] \<or> (\<exists>cmd run rest. evs = EvMapDrive (szDriveLetter n) cmd run # rest
                     \<and> mapped_letters rest = []))
   \<and> (\<forall>e \<in> set evs. \<not> is_CreateProcess e)
   \<and> (\<forall>adv tbl' rs'. r = Next (adv, tbl', rs') \<longrightarrow> strip_mapped tbl' = strip_mapped tbl)
   \<and> (\<forall>v. r = Ret v \<longrightarrow> v = 1)"
proof -
  assume ms: "map_slot nd i n tbl rs = (evs, r)"
  show ?thesis
  proof (cases rs)
    case Nil
    with ms show ?thesis by (auto simp: map_slot_def)
  next
    case (Cons a rs1)
    show ?thesis
    proof (cases "\<exists>mapRun enumRun rs2. rs = ProcessRun mapRun # EnumRun enumRun # rs2")
      case False
      with ms Cons have "evs = []" "r = Stop Blocked"
        by (auto simp: map_slot_def split: list.splits os_reply.splits)
      then show ?thesis by simp
    next
      case True
      then obtain mapRun enumRun rs2 where rs: "rs = ProcessRun mapRun # EnumRun enumRun # rs2"
        by blast
      obtain evs1 m where md: "MapDrive n mapRun = (evs1, m)" by (cases "MapDrive n mapRun")
      show ?thesis
      proof (cases m)
        case (Inl h)
        with md have "evs1 = []" by (auto simp: MapDrive_def Let_def split: option.splits if_splits)
        with ms rs md Inl show ?thesis by (auto simp: map_slot_def)
      next
        case (Inr ret)
        with md obtain cmd where evs1: "evs1 = [EvMapDrive (szDriveLetter n) cmd mapRun]"
          by (auto simp: MapDrive_def Let_def split: option.splits if_splits)
        obtain evs2 g where gm: "GetMappedPaths tbl enumRun = (evs2, g)"
          by (cases "GetMappedPaths tbl enumRun")
        note g = GetMappedPaths_strip [OF gm]
        from g have q2: "mapped_letters evs2 = []" "\<forall>e \<in> set evs2. \<not> is_CreateProcess e"
          by auto
        show ?thesis
        proof (cases g)
          case (Inl h)
          with ms rs md Inr gm have "evs = evs1 @ evs2" "r = Stop h"
            by (auto simp: map_slot_def)
          with evs1 q2 show ?thesis by simp
        next
          case gr: (Inr p)
          obtain enumRet tbl1 where p: "p = (enumRet, tbl1)" by (cases p)
          from g gr p have st: "strip_mapped tbl1 = strip_mapped tbl" by simp
          show ?thesis
          proof (cases "tbl1 ! i")
            case None
            with ms rs md Inr gm gr p have "evs = evs1 @ evs2" "r = Stop AccessViolation"
              by (auto simp: map_slot_def)
            with evs1 q2 show ?thesis by simp
          next
            case (Some node)
            show ?thesis
            proof (cases "szSourceDirectory node \<noteq> None \<and> szMappedPath node \<noteq> None
                            \<and> szSourceDirectory node = szMappedPath node")
              case True
              with ms rs md Inr gm gr p Some have "evs = evs1 @ evs2" "r = Next (True, tbl1, rs2)"
                by (auto simp: map_slot_def)
              with evs1 q2 st show ?thesis by simp
            next
              case False
              obtain evs3 r3 where rp: "repair_slot nd node rs2 = (evs3, r3)"
                by (cases "repair_slot nd node rs2")
              note f3 = repair_slot_facts [OF rp]
              from ms rs md Inr gm gr p Some False rp
              have "evs = evs1 @ evs2 @ evs3"
                "r = (case r3 of Next rs3 \<Rightarrow> Next (False, tbl1, rs3) | Ret v \<Rightarrow> Ret v | Stop h \<Rightarrow> Stop h)"
                by (auto simp: map_slot_def split: ctl.splits)
              with evs1 q2 st f3 show ?thesis by (auto split: ctl.splits)
            qed
          qed
        qed
      qed
    qed
  qed
qed

lemma map_phase_induct [consumes 1, case_names finished skipped round returned halted]:
  assumes "map_phase nd i tbl rs = (evs, r)"
    and "\<And>nd i tbl rs. NUMBER_DEFINABLE_SUBST \<le> i \<Longrightarrow> P nd i tbl rs [] (Next (tbl, rs))"
    and "\<And>nd i tbl rs evs r. i < NUMBER_DEFINABLE_SUBST \<Longrightarrow> tbl ! i = None \<Longrightarrow>
           map_phase nd (Suc i) tbl rs = (evs, r) \<Longrightarrow> P nd (Suc i) tbl rs evs r \<Longrightarrow> P nd i tbl rs evs r"
    and "\<And>nd i tbl rs n evs1 adv tbl' rs' evs2 r. i < NUMBER_DEFINABLE_SUBST \<Longrightarrow> tbl ! i = Some n \<Longrightarrow>
           map_slot nd i n tbl rs = (evs1, Next (adv, tbl', rs')) \<Longrightarrow>
           map_phase nd (if adv then Suc i else i) tbl' rs' = (evs2, r) \<Longrightarrow>
           P nd (if adv then Suc i else i) tbl' rs' evs2 r \<Longrightarrow> P nd i tbl rs (evs1 @ evs2) r"
    and "\<And>nd i tbl rs n evs1 v. i < NUMBER_DEFINABLE_SUBST \<Longrightarrow> tbl ! i = Some n \<Longrightarrow>
           map_slot nd i n tbl rs = (evs1, Ret v) \<Longrightarrow> P nd i tbl rs evs1 (Ret v)"
    and "\<And>nd i tbl rs n evs1 h. i < NUMBER_DEFINABLE_SUBST \<Longrightarrow> tbl ! i = Some n \<Longrightarrow>
           map_slot nd i n tbl rs = (evs1, Stop h) \<Longrightarrow> P nd i tbl rs evs1 (Stop h)"
  shows "P nd i tbl rs evs r"
  using assms(1)
proof (induction nd i tbl rs arbitrary: evs r rule: map_phase.induct)
  case (1 nd i tbl rs)
  show ?case
  proof (cases "NUMBER_DEFINABLE_SUBST \<le> i")
    case True
    with "1.prems" assms(2) [OF True, of nd tbl rs] show ?thesis
      by (auto simp: map_phase.simps)
  next
    case False
    then have i: "i < NUMBER_DEFINABLE_SUBST" by simp
    show ?thesis
    proof (cases "tbl ! i")
      case None
      with False "1.prems" have lp: "map_phase nd (Suc i) tbl rs = (evs, r)"
        by (simp add: map_phase.simps)
      then have "map_phase nd (i + 1) tbl rs = (evs, r)" by simp
      from "1.IH"(1) [OF False None this] have "P nd (Suc i) tbl rs evs r" by simp
      with assms(3) [OF i None lp] show ?thesis .
    next
      case (Some n)
      obtain evs1 r1 where ls: "map_slot nd i n tbl rs = (evs1, r1)"
        by (cases "map_slot nd i n tbl rs")
      show ?thesis
      proof (cases r1)
        case (Next p)
        obtain adv tbl' rs' where p: "p = (adv, tbl', rs')" by (cases p)
        obtain evs2 r2 where
          lp: "map_phase nd (if adv then i + 1 else i) tbl' rs' = (evs2, r2)"
          by (cases "map_phase nd (if adv then i + 1 else i) tbl' rs'")
        from False Some ls Next p lp "1.prems" have res: "evs = evs1 @ evs2" "r = r2"
          by (simp_all add: map_phase.simps)
        have "(tbl', rs') = (tbl', rs')" by simp
        from "1.IH"(2) [OF False Some ls [symmetric] Next p [symmetric] this lp]
        have "P nd (if adv then Suc i else i) tbl' rs' evs2 r2" by (cases adv) simp_all
        moreover from lp have "map_phase nd (if adv then Suc i else i) tbl' rs' = (evs2, r2)"
          by (cases adv) simp_all
        ultimately show ?thesis
          using assms(4) [OF i Some ls [unfolded Next p]] res by blast
      next
        case (Ret v)
        with False Some ls "1.prems" have "evs = evs1" "r = Ret v"
          by (simp_all add: map_phase.simps)
        with assms(5) [OF i Some ls [unfolded Ret]] show ?thesis by simp
      next
        case (Stop h)
        with False Some ls "1.prems" have "evs = evs1" "r = Stop h"
          by (simp_all add: map_phase.simps)
        with assms(6) [OF i Some ls [unfolded Stop]] show ?thesis by simp
      qed
    qed
  qed
qed

lemma wf_table_strip_mapped: "wf_table (strip_mapped tbl) = wf_table tbl"
  unfolding wf_table_def strip_mapped_def
  by (auto simp: map_option_case split: option.splits)

lemma wf_table_same_strip:
  "strip_mapped tbl' = strip_mapped tbl \<Longrightarrow> wf_table tbl \<Longrightarrow> wf_table tbl'"
  using wf_table_strip_mapped by metis

lemma map_phase_facts:
  "map_phase nd i tbl rs = (evs, r) \<Longrightarrow> wf_table tbl \<Longrightarrow>
    (\<forall>l \<in> set (mapped_letters evs). 65 + i \<le> unat l)
  \<and> sorted (map unat (mapped_letters evs))
  \<and> (evs = [] \<or> (\<exists>l cmd run rest. evs = EvMapDrive l cmd run # rest))
  \<and> (\<forall>e \<in> set evs. \<not> is_CreateProcess e)
  \<and> (\<forall>tbl' rs'. r = Next (tbl', rs') \<longrightarrow> strip_mapped tbl' = strip_mapped tbl)
  \<and> (\<forall>v. r = Ret v \<longrightarrow> v = 1)"
proof (induction rule: map_phase_induct)
  case (finished nd i tbl rs)
  then show ?case by simp
next
  case (skipped nd i tbl rs evs r)
  from skipped.IH [OF skipped.prems] show ?case by auto
next
  case (round nd i tbl rs n evs1 adv tbl' rs' evs2 r)
  note f = map_slot_facts [OF round(3)]
  from f have st: "strip_mapped tbl' = strip_mapped tbl" by simp
  have wf': "wf_table tbl'" using wf_table_same_strip [OF st round.prems] .
  note IH = round.IH [OF wf']
  from round(1,2) round.prems have letter: "unat (szDriveLetter n) = 65 + i"
    by (simp add: wf_table_def)
  from f have m1: "mapped_letters evs1 = [] \<or> mapped_letters evs1 = [szDriveLetter n]"
    by auto
  have ge: "\<forall>l \<in> set (mapped_letters evs2). 65 + i \<le> unat l"
    using IH by (cases adv) auto
  have A: "\<forall>l \<in> set (mapped_letters (evs1 @ evs2)). 65 + i \<le> unat l"
    using m1 ge letter by auto
  have B: "sorted (map unat (mapped_letters (evs1 @ evs2)))"
    using m1 ge letter IH by (auto simp: sorted_append)
  have C: "evs1 @ evs2 = [] \<or> (\<exists>l cmd run rest. evs1 @ evs2 = EvMapDrive l cmd run # rest)"
    using f IH by (cases evs1) auto
  have D: "\<forall>e \<in> set (evs1 @ evs2). \<not> is_CreateProcess e"
    using f IH by auto
  have E: "\<forall>tbl'' rs''. r = Next (tbl'', rs'') \<longrightarrow> strip_mapped tbl'' = strip_mapped tbl"
    using IH st by simp
  have F: "\<forall>v. r = Ret v \<longrightarrow> v = 1" using IH by simp
  from A B C D E F show ?case by blast
next
  case (returned nd i tbl rs n evs1 v)
  note f = map_slot_facts [OF returned(3)]
  from returned(1,2) returned.prems have letter: "unat (szDriveLetter n) = 65 + i"
    by (simp add: wf_table_def)
  from f letter show ?case by auto
next
  case (halted nd i tbl rs n evs1 h)
  note f = map_slot_facts [OF halted(3)]
  from halted(1,2) halted.prems have letter: "unat (szDriveLetter n) = 65 + i"
    by (simp add: wf_table_def)
  from f letter show ?case by auto
qed

subsection \<open>The order of locking and mapping\<close>

lemma ExecuteProcess_events:
  "ExecuteProcess argv exe tbl rs = (evs, r) \<Longrightarrow>
     mapped_letters evs = [] \<and> opened_files evs = [] \<and> (\<forall>e \<in> set evs. \<not> is_cleanup e)"
  unfolding ExecuteProcess_def
  by (auto simp: Let_def split: if_splits list.splits os_reply.splits sum.splits process_run.splits)

lemma UnmapDrive_events [simp]:
  "fst (UnmapDrive n run) =
     [EvUnmapDrive (szDriveLetter n)
        (wstr ''subst /D '' @ [QUOTE] @ [szDriveLetter n] @ [COLON] @ [QUOTE]) run]"
  by (simp add: UnmapDrive_def Let_def)

lemma cleanup_events:
  "cleanup nd tbl code rs = (evs, r) \<Longrightarrow>
     mapped_letters evs = [] \<and> opened_files evs = [] \<and> (\<forall>e \<in> set evs. \<not> is_CreateProcess e)"
proof (induction nd tbl code rs arbitrary: evs r rule: cleanup.induct)
  case (1 nd code rs)
  then show ?case by auto
next
  case (2 nd rest code rs)
  then show ?case by simp
next
  case (3 nd n rest code rs)
  then show ?case
    by (auto simp: Let_def LogToFile_def
          split: list.splits os_reply.splits if_splits prod.splits)
qed

lemma requested_letters_sorted:
  "(\<forall>i < length tbl. \<forall>n. tbl ! i = Some n \<longrightarrow> f n = k + i) \<Longrightarrow>
   sorted_wrt (<) (map f (requested tbl)) \<and> (\<forall>x \<in> set (map f (requested tbl)). k \<le> x)"
proof (induction tbl arbitrary: k rule: requested.induct)
  case 1
  then show ?case by simp
next
  case (2 rest)
  have "\<forall>i < length rest. \<forall>n. rest ! i = Some n \<longrightarrow> f n = Suc k + i"
    using "2.prems" by fastforce
  from "2.IH" [OF this] show ?case by auto
next
  case (3 node rest)
  have "\<forall>i < length rest. \<forall>n. rest ! i = Some n \<longrightarrow> f n = Suc k + i"
    using "3.prems" by fastforce
  from "3.IH" [OF this] have "sorted_wrt (<) (map f (requested rest))"
    "\<forall>x \<in> set (map f (requested rest)). Suc k \<le> x" by auto
  moreover from "3.prems" have "f node = k" by fastforce
  ultimately show ?case by auto
qed

lemma wf_table_letters_sorted:
  "wf_table tbl \<Longrightarrow> sorted_wrt (<) (map (unat \<circ> szDriveLetter) (requested tbl))"
  using requested_letters_sorted [of tbl "unat \<circ> szDriveLetter" 65]
  by (simp add: wf_table_def)

lemma lock_phase_wf:
  assumes "lock_phase 0 tbl rs = (evs, Next (tbl1, rs1))" and "wf_table tbl"
  shows "wf_table tbl1"
proof -
  from assms(2) have len: "length tbl = NUMBER_DEFINABLE_SUBST" by (simp add: wf_table_def)
  note t = lock_phase_table [OF assms(1) len]
  from t have len1: "length tbl1 = length tbl" by simp
  have "unat (szDriveLetter m) = 65 + j \<and> szSourceDirectory m \<noteq> None"
    if j: "j < NUMBER_DEFINABLE_SUBST" and m: "tbl1 ! j = Some m" for j m
  proof (cases "tbl ! j")
    case None
    with t j len have "tbl1 ! j = None" by simp
    with m show ?thesis by simp
  next
    case (Some n)
    with t j len obtain h where "tbl1 ! j = Some (n\<lparr>hLockFile := h\<rparr>)" by fastforce
    with m have "m = n\<lparr>hLockFile := h\<rparr>" by simp
    moreover from assms(2) j Some have "unat (szDriveLetter n) = 65 + j \<and> szSourceDirectory n \<noteq> None"
      by (simp add: wf_table_def)
    ultimately show ?thesis by simp
  qed
  with len len1 show ?thesis by (simp add: wf_table_def)
qed

lemma setup_drives_run:
  assumes "setup_drives nd tbl rs = (evs, r)" and "wf_table tbl"
  shows "\<exists>e1 e2. evs = e1 @ e2 \<and> mapped_letters e1 = []
            \<and> prefix (opened_files e1) (map source_lock_file (requested tbl))
            \<and> (e2 \<noteq> [] \<longrightarrow> opened_files e1 = map source_lock_file (requested tbl))
            \<and> (e2 = [] \<or> (\<exists>l cmd run rest. e2 = EvMapDrive l cmd run # rest))
            \<and> sorted (map unat (mapped_letters e2))
            \<and> (\<forall>v. r = Ret v \<longrightarrow> v = 1)
            \<and> (\<forall>tbl' rs'. r = Next (tbl', rs') \<longrightarrow> wf_table tbl')"
proof -
  from assms(2) have len: "length tbl = NUMBER_DEFINABLE_SUBST" by (simp add: wf_table_def)
  obtain e1 r1 where lp: "lock_phase 0 tbl rs = (e1, r1)" by (cases "lock_phase 0 tbl rs")
  note l = lock_phase_events [OF lp len]
  show ?thesis
  proof (cases r1)
    case (Next p)
    obtain tbl1 rs1 where p: "p = (tbl1, rs1)" by (cases p)
    from lp Next p assms(2) have wf1: "wf_table tbl1" using lock_phase_wf by blast
    obtain e2 r2 where mp: "map_phase nd 0 tbl1 rs1 = (e2, r2)"
      by (cases "map_phase nd 0 tbl1 rs1")
    note m = map_phase_facts [OF mp wf1]
    from assms(1) lp Next p mp have res: "evs = e1 @ e2" "r = r2"
      by (simp_all add: setup_drives_def)
    have "\<forall>tbl' rs'. r2 = Next (tbl', rs') \<longrightarrow> wf_table tbl'"
      using m wf1 wf_table_same_strip by blast
    with l m Next res show ?thesis
      by (intro exI [of _ e1] exI [of _ e2]) simp
  next
    case (Ret v)
    with assms(1) lp have res: "evs = e1" "r = Ret v"
      by (simp_all add: setup_drives_def)
    with l Ret show ?thesis
      by (intro exI [of _ e1] exI [of _ "[]"]) simp
  next
    case (Stop h)
    with assms(1) lp have res: "evs = e1" "r = Stop h"
      by (simp_all add: setup_drives_def)
    with l Stop show ?thesis
      by (intro exI [of _ e1] exI [of _ "[]"]) simp
  qed
qed

lemma execute_and_cleanup_events:
  assumes "execute_and_cleanup nd argv exe tbl rs = (evs, r)"
  shows "mapped_letters evs = [] \<and> opened_files evs = []"
proof -
  obtain ev1 x where ep: "ExecuteProcess argv exe tbl rs = (ev1, x)"
    by (cases "ExecuteProcess argv exe tbl rs")
  note e = ExecuteProcess_events [OF ep]
  show ?thesis
  proof (cases x)
    case (Inl h)
    with assms ep have "evs = ev1" by (simp add: execute_and_cleanup_def)
    with e show ?thesis by simp
  next
    case (Inr q)
    obtain code rs2 where q: "q = (code, rs2)" by (cases q)
    obtain ev2 y where cl: "cleanup nd tbl code rs2 = (ev2, y)"
      by (cases "cleanup nd tbl code rs2")
    note c = cleanup_events [OF cl]
    from assms ep Inr q cl have "evs = ev1 @ ev2" by (simp add: execute_and_cleanup_def)
    with e c show ?thesis by simp
  qed
qed

lemma SubstDrivesAndExecute_run:
  assumes "SubstDrivesAndExecute nd argv lst tbl exe rs = (evs, r)" and "wf_table tbl"
  shows "\<exists>e1 e2 e3. evs = e1 @ e2 @ e3 \<and> mapped_letters e1 = []
            \<and> prefix (opened_files e1) (map source_lock_file (requested tbl))
            \<and> (e2 \<noteq> [] \<longrightarrow> opened_files e1 = map source_lock_file (requested tbl))
            \<and> (e2 = [] \<or> (\<exists>l cmd run rest. e2 = EvMapDrive l cmd run # rest))
            \<and> sorted (map unat (mapped_letters e2))
            \<and> mapped_letters e3 = [] \<and> opened_files e3 = []"
proof (cases "lst = []")
  case True
  show ?thesis
  proof (cases nd)
    case False
    define e1 where "e1 = [EvAssert ''pSubstList != nullptr'']"
    from False True assms(1) have "evs = e1 @ [] @ []"
      by (simp add: SubstDrivesAndExecute_def e1_def)
    moreover have "mapped_letters e1 = []" "opened_files e1 = []" by (simp_all add: e1_def)
    moreover have "sorted (map unat (mapped_letters []))" "mapped_letters [] = []"
      "opened_files [] = []" by simp_all
    ultimately show ?thesis
      by (intro exI [of _ e1] exI [of _ "[]"] exI [of _ "[]"]) simp
  next
    case nd: True
    obtain e3 x where ec: "execute_and_cleanup nd argv exe tbl rs = (e3, x)"
      by (cases "execute_and_cleanup nd argv exe tbl rs")
    define e1 where "e1 = [EvAssert ''pSubstList != nullptr'']"
    from ec True nd assms(1) have "evs = e1 @ [] @ e3"
      by (simp add: SubstDrivesAndExecute_def e1_def)
    moreover have "mapped_letters e1 = []" "opened_files e1 = []" by (simp_all add: e1_def)
    moreover have "sorted (map unat (mapped_letters []))" by simp
    ultimately show ?thesis
      using execute_and_cleanup_events [OF ec]
      by (intro exI [of _ e1] exI [of _ "[]"] exI [of _ e3]) simp
  qed
next
  case False
  obtain e12 r12 where su: "setup_drives nd tbl rs = (e12, r12)"
    by (cases "setup_drives nd tbl rs")
  from setup_drives_run [OF su assms(2)]
  obtain e1 e2 where e12all: "e12 = e1 @ e2 \<and> mapped_letters e1 = []
            \<and> prefix (opened_files e1) (map source_lock_file (requested tbl))
            \<and> (e2 \<noteq> [] \<longrightarrow> opened_files e1 = map source_lock_file (requested tbl))
            \<and> (e2 = [] \<or> (\<exists>l cmd run rest. e2 = EvMapDrive l cmd run # rest))
            \<and> sorted (map unat (mapped_letters e2))
            \<and> (\<forall>v. r12 = Ret v \<longrightarrow> v = 1)
            \<and> (\<forall>tbl' rs'. r12 = Next (tbl', rs') \<longrightarrow> wf_table tbl')"
    by (elim exE) (erule that)
  then have e12: "e12 = e1 @ e2" "mapped_letters e1 = []"
    "prefix (opened_files e1) (map source_lock_file (requested tbl))"
    "e2 \<noteq> [] \<longrightarrow> opened_files e1 = map source_lock_file (requested tbl)"
    "e2 = [] \<or> (\<exists>l cmd run rest. e2 = EvMapDrive l cmd run # rest)"
    "sorted (map unat (mapped_letters e2))"
    by simp_all
  have "\<exists>e3. evs = e12 @ e3 \<and> mapped_letters e3 = [] \<and> opened_files e3 = []"
  proof (cases r12)
    case (Next p)
    obtain tbl1 rs1 where p: "p = (tbl1, rs1)" by (cases p)
    obtain e3 x where ec: "execute_and_cleanup nd argv exe tbl1 rs1 = (e3, x)"
      by (cases "execute_and_cleanup nd argv exe tbl1 rs1")
    with False su Next p assms(1) have "evs = e12 @ e3"
      by (simp add: SubstDrivesAndExecute_def)
    with execute_and_cleanup_events [OF ec] show ?thesis by simp
  next
    case (Ret v)
    with False su assms(1) have "evs = e12" by (simp add: SubstDrivesAndExecute_def)
    then show ?thesis by simp
  next
    case (Stop h)
    with False su assms(1) have "evs = e12" by (simp add: SubstDrivesAndExecute_def)
    then show ?thesis by simp
  qed
  then obtain e3 where e3all: "evs = e12 @ e3 \<and> mapped_letters e3 = [] \<and> opened_files e3 = []"
    by (elim exE) (erule that)
  then have e3: "evs = e12 @ e3" "mapped_letters e3 = []" "opened_files e3 = []" by simp_all
  from e3(1) e12(1) have "evs = e1 @ e2 @ e3" by simp
  with e12(2-6) e3(2,3) show ?thesis
    by (intro exI [of _ e1] exI [of _ e2] exI [of _ e3] conjI) assumption+
qed

lemma mapped_letters_Nil_iff:
  "mapped_letters evs = [] \<longleftrightarrow> (\<forall>e \<in> set evs. mapped_letter e = [])"
  by (simp add: mapped_letters_def)

lemma opened_files_takeWhile_quiet:
  "opened_files evs = [] \<Longrightarrow> opened_files (takeWhile P evs) = []"
  by (induction evs) (auto simp: opened_files_def)

text \<open>
  Claim C1. In every run of \<^verbatim>\<open>SubstDrivesAndExecute\<close> on a table as the parser builds it (slot
  \<open>i\<close> holds the letter \<open>65 + i\<close> and a source directory), whatever the operating system
  answers: the slots that are not null carry strictly ascending letters; the files opened
  before the first \<^verbatim>\<open>MapDrive\<close> are lock files in the source directories of these slots, in
  that order, each at most once (a prefix of the list when the run ends or waits in the first
  loop); if any drive is mapped at all, the lock files of all the slots have been opened
  before; and the letters of the calls of \<^verbatim>\<open>MapDrive\<close> never descend (a slot that is tried
  again repeats its letter).
\<close>

theorem locks_before_mapping_in_letter_order:
  assumes "wf_table pOrderedSubstList"
    and "SubstDrivesAndExecute NDEBUG argv pSubstList pOrderedSubstList executableToRunIndex rs
         = (evs, r)"
  shows "sorted_wrt (<) (map (unat \<circ> szDriveLetter) (requested pOrderedSubstList))
       \<and> prefix (opened_files (takeWhile (\<lambda>e. mapped_letter e = []) evs))
                (map source_lock_file (requested pOrderedSubstList))
       \<and> (mapped_letters evs \<noteq> [] \<longrightarrow>
            opened_files (takeWhile (\<lambda>e. mapped_letter e = []) evs)
            = map source_lock_file (requested pOrderedSubstList))
       \<and> sorted (map unat (mapped_letters evs))"
proof -
  from SubstDrivesAndExecute_run [OF assms(2) assms(1)]
  obtain e1 e2 e3 where run: "evs = e1 @ e2 @ e3 \<and> mapped_letters e1 = []
            \<and> prefix (opened_files e1) (map source_lock_file (requested pOrderedSubstList))
            \<and> (e2 \<noteq> [] \<longrightarrow> opened_files e1 = map source_lock_file (requested pOrderedSubstList))
            \<and> (e2 = [] \<or> (\<exists>l cmd run rest. e2 = EvMapDrive l cmd run # rest))
            \<and> sorted (map unat (mapped_letters e2))
            \<and> mapped_letters e3 = [] \<and> opened_files e3 = []"
    by (elim exE) (erule that)
  then have evs: "evs = e1 @ e2 @ e3" and m1: "mapped_letters e1 = []"
    and p1: "prefix (opened_files e1) (map source_lock_file (requested pOrderedSubstList))"
    and all1: "e2 \<noteq> [] \<longrightarrow> opened_files e1 = map source_lock_file (requested pOrderedSubstList)"
    and e2: "e2 = [] \<or> (\<exists>l cmd run rest. e2 = EvMapDrive l cmd run # rest)"
    and s2: "sorted (map unat (mapped_letters e2))"
    and m3: "mapped_letters e3 = []" and o3: "opened_files e3 = []"
    by simp_all
  let ?P = "\<lambda>e. mapped_letter e = []"
  from m1 have "\<forall>e \<in> set e1. ?P e" by (simp add: mapped_letters_Nil_iff)
  then have tw: "takeWhile ?P evs = e1 @ takeWhile ?P (e2 @ e3)"
    by (simp add: evs takeWhile_append2)
  have o23: "opened_files (takeWhile ?P (e2 @ e3)) = []"
  proof (cases "e2 = []")
    case True
    with o3 show ?thesis by (simp add: opened_files_takeWhile_quiet)
  next
    case False
    with e2 obtain l cmd run rest where "e2 = EvMapDrive l cmd run # rest" by blast
    then show ?thesis by simp
  qed
  from tw o23 have opened: "opened_files (takeWhile ?P evs) = opened_files e1" by simp
  have mapped: "mapped_letters evs = mapped_letters e2" using evs m1 m3 by simp
  have A: "sorted_wrt (<) (map (unat \<circ> szDriveLetter) (requested pOrderedSubstList))"
    using assms(1) by (rule wf_table_letters_sorted)
  have C: "mapped_letters evs \<noteq> [] \<longrightarrow>
            opened_files (takeWhile ?P evs) = map source_lock_file (requested pOrderedSubstList)"
    using mapped all1 opened by auto
  from A p1 C s2 opened mapped show ?thesis by simp
qed

subsection \<open>A run of the example\<close>

lemma lock_phase_skip:
  "(\<forall>j. i \<le> j \<and> j < k \<longrightarrow> tbl ! j = None) \<Longrightarrow> i \<le> k \<Longrightarrow> k \<le> NUMBER_DEFINABLE_SUBST \<Longrightarrow>
   lock_phase i tbl rs = lock_phase k tbl rs"
proof (induction "k - i" arbitrary: i)
  case 0
  then show ?case by simp
next
  case (Suc d)
  then have "i < k" "tbl ! i = None" "i < NUMBER_DEFINABLE_SUBST" by auto
  then have "lock_phase i tbl rs = lock_phase (Suc i) tbl rs"
    by (subst lock_phase.simps) simp
  also have "\<dots> = lock_phase k tbl rs"
    using Suc by (intro Suc.hyps(1)) auto
  finally show ?case .
qed

lemma map_phase_skip:
  "(\<forall>j. i \<le> j \<and> j < k \<longrightarrow> tbl ! j = None) \<Longrightarrow> i \<le> k \<Longrightarrow> k \<le> NUMBER_DEFINABLE_SUBST \<Longrightarrow>
   map_phase nd i tbl rs = map_phase nd k tbl rs"
proof (induction "k - i" arbitrary: i)
  case 0
  then show ?case by simp
next
  case (Suc d)
  then have "i < k" "tbl ! i = None" "i < NUMBER_DEFINABLE_SUBST" by auto
  then have "map_phase nd i tbl rs = map_phase nd (Suc i) tbl rs"
    by (subst map_phase.simps) simp
  also have "\<dots> = map_phase nd k tbl rs"
    using Suc by (intro Suc.hyps(1)) auto
  finally show ?case .
qed

lemma lock_phase_end: "lock_phase NUMBER_DEFINABLE_SUBST tbl rs = ([], Next (tbl, rs))"
  by (simp add: lock_phase.simps)

lemma map_phase_end: "map_phase nd NUMBER_DEFINABLE_SUBST tbl rs = ([], Next (tbl, rs))"
  by (simp add: map_phase.simps)

lemma lock_phase_at:
  "i < NUMBER_DEFINABLE_SUBST \<Longrightarrow> tbl ! i = Some n \<Longrightarrow>
   lock_phase i tbl rs =
     (case lock_slot n rs of
        (evs, Next (node, rs')) \<Rightarrow>
          (let (evs', r) = lock_phase (i + 1) (tbl[i := Some node]) rs' in (evs @ evs', r))
      | (evs, Ret v) \<Rightarrow> (evs, Ret v)
      | (evs, Stop h) \<Rightarrow> (evs, Stop h))"
  by (subst lock_phase.simps) simp

lemma map_phase_at:
  "i < NUMBER_DEFINABLE_SUBST \<Longrightarrow> tbl ! i = Some n \<Longrightarrow>
   map_phase nd i tbl rs =
     (case map_slot nd i n tbl rs of
        (evs, Next (advance, tbl', rs')) \<Rightarrow>
          (let (evs', r) = map_phase nd (if advance then i + 1 else i) tbl' rs'
           in (evs @ evs', r))
      | (evs, Ret v) \<Rightarrow> (evs, Ret v)
      | (evs, Stop h) \<Rightarrow> (evs, Stop h))"
  by (subst map_phase.simps) simp

lemma table2_nth:
  "j < 26 \<Longrightarrow> table2 a b ! j = (if j = 24 then Some b else if j = 23 then Some a else None)"
  by (simp add: table2_def NUMBER_DEFINABLE_SUBST_def nth_list_update)

lemma table2_simps [simp]:
  "table2 a b ! 23 = Some a" "table2 a b ! 24 = Some b"
  "(table2 a b)[23 := Some a'] = table2 a' b" "(table2 a b)[24 := Some b'] = table2 a b'"
  "length (table2 a b) = 26"
  by (simp_all add: table2_def NUMBER_DEFINABLE_SUBST_def list_update_swap [of 23 24])

lemma lock_phase_table2:
  "lock_phase 0 (table2 a b) rs =
     (case lock_slot a rs of
        (evs, Next (a', rs')) \<Rightarrow>
          (case lock_slot b rs' of
             (evs', Next (b', rs'')) \<Rightarrow> (evs @ evs', Next (table2 a' b', rs''))
           | (evs', Ret v) \<Rightarrow> (evs @ evs', Ret v)
           | (evs', Stop h) \<Rightarrow> (evs @ evs', Stop h))
      | (evs, Ret v) \<Rightarrow> (evs, Ret v)
      | (evs, Stop h) \<Rightarrow> (evs, Stop h))"
proof -
  have s0: "lock_phase 0 (table2 a b) rs = lock_phase 23 (table2 a b) rs"
    by (rule lock_phase_skip) (simp_all add: table2_nth NUMBER_DEFINABLE_SUBST_def)
  have s25: "lock_phase 25 (table2 a' b') rs'' = ([], Next (table2 a' b', rs''))" for a' b' rs''
  proof -
    have "lock_phase 25 (table2 a' b') rs'' = lock_phase NUMBER_DEFINABLE_SUBST (table2 a' b') rs''"
      by (rule lock_phase_skip) (auto simp: table2_nth NUMBER_DEFINABLE_SUBST_def)
    then show ?thesis by (simp only: lock_phase_end)
  qed
  have s24: "lock_phase 24 (table2 a' b) rs' =
       (case lock_slot b rs' of
             (evs', Next (b', rs'')) \<Rightarrow> (evs', Next (table2 a' b', rs''))
           | (evs', Ret v) \<Rightarrow> (evs', Ret v)
           | (evs', Stop h) \<Rightarrow> (evs', Stop h))" for a' rs'
    by (subst lock_phase_at [of 24 _ b])
       (simp_all add: NUMBER_DEFINABLE_SUBST_def s25 split: prod.splits ctl.splits)
  have s23: "lock_phase 23 (table2 a b) rs =
     (case lock_slot a rs of
        (evs, Next (a', rs')) \<Rightarrow>
          (let (evs', r) = lock_phase 24 (table2 a' b) rs' in (evs @ evs', r))
      | (evs, Ret v) \<Rightarrow> (evs, Ret v)
      | (evs, Stop h) \<Rightarrow> (evs, Stop h))"
    by (subst lock_phase_at [of 23 _ a])
       (simp_all add: NUMBER_DEFINABLE_SUBST_def split: prod.splits ctl.splits)
  show ?thesis
    unfolding s0 s23 s24
    by (simp split: prod.splits ctl.splits)
qed

lemma map_phase_table2_start:
  "map_phase nd 0 (table2 a b) rs = map_phase nd 23 (table2 a b) rs"
  by (rule map_phase_skip) (simp_all add: table2_nth NUMBER_DEFINABLE_SUBST_def)

lemma map_phase_table2_end:
  "map_phase nd 25 (table2 a b) rs = ([], Next (table2 a b, rs))"
proof -
  have "map_phase nd 25 (table2 a b) rs = map_phase nd NUMBER_DEFINABLE_SUBST (table2 a b) rs"
    by (rule map_phase_skip) (auto simp: table2_nth NUMBER_DEFINABLE_SUBST_def)
  then show ?thesis by (simp only: map_phase_end)
qed

lemma map_phase_table2_X:
  "map_phase nd 23 (table2 a b) rs =
     (case map_slot nd 23 a (table2 a b) rs of
        (evs, Next (advance, tbl', rs')) \<Rightarrow>
          (let (evs', r) = map_phase nd (if advance then 24 else 23) tbl' rs'
           in (evs @ evs', r))
      | (evs, Ret v) \<Rightarrow> (evs, Ret v)
      | (evs, Stop h) \<Rightarrow> (evs, Stop h))"
  by (subst map_phase_at [of 23 _ a])
     (simp_all add: NUMBER_DEFINABLE_SUBST_def split: prod.splits ctl.splits)

lemma map_phase_table2_Y:
  "map_phase nd 24 (table2 a b) rs =
     (case map_slot nd 24 b (table2 a b) rs of
        (evs, Next (advance, tbl', rs')) \<Rightarrow>
          (let (evs', r) = map_phase nd (if advance then 25 else 24) tbl' rs'
           in (evs @ evs', r))
      | (evs, Ret v) \<Rightarrow> (evs, Ret v)
      | (evs, Stop h) \<Rightarrow> (evs, Stop h))"
  by (subst map_phase_at [of 24 _ b])
     (simp_all add: NUMBER_DEFINABLE_SUBST_def split: prod.splits ctl.splits)

lemma example_chars:
  "dir_work = [0x63, 0x3A, 0x5C, 0x77, 0x6F, 0x72, 0x6B, 0x5C]"
  "dir_sub = [0x63, 0x3A, 0x5C, 0x77, 0x6F, 0x72, 0x6B, 0x5C, 0x73, 0x75, 0x62, 0x5C]"
  "listing_X = [0x58, 0x3A, 0x5C, 0x3A, 0x20, 0x3D, 0x3E, 0x20, 0x43, 0x3A, 0x5C, 0x77, 0x6F,
                0x72, 0x6B, 0x0D, 0x0A]"
  "listing_Y = [0x59, 0x3A, 0x5C, 0x3A, 0x20, 0x3D, 0x3E, 0x20, 0x43, 0x3A, 0x5C, 0x77, 0x6F,
                0x72, 0x6B, 0x5C, 0x73, 0x75, 0x62, 0x0D, 0x0A]"
  by (simp_all add: dir_work_def dir_sub_def listing_X_def listing_Y_def wstr_def bytes_def
        BACKSLASH_def)

lemmas eval_consts =
  SUBST_SOURCE_LENGTH_def GET_PATH_TARGET_OFFSET_def MAPPED_PATH_STRING_def BACKSLASH_def
  tolower_c_def totupper_def wcscpy_s_def

lemma enum_X:
  "GetMappedPaths (table2 a b) (EnumOutput [listing_X]) =
     ([EvGetMappedPaths (EnumOutput [listing_X])],
      Inr (0, table2 (a\<lparr>szMappedPath := Some dir_work\<rparr>) b))"
  by (simp add: GetMappedPaths_def example_chars parse_lines.simps scan_path.simps eval_consts
        Let_def)

lemma enum_XY:
  "GetMappedPaths (table2 a b) (EnumOutput [listing_X @ listing_Y]) =
     ([EvGetMappedPaths (EnumOutput [listing_X @ listing_Y])],
      Inr (0, table2 (a\<lparr>szMappedPath := Some dir_work\<rparr>) (b\<lparr>szMappedPath := Some dir_sub\<rparr>)))"
  by (simp add: GetMappedPaths_def example_chars parse_lines.simps scan_path.simps eval_consts
        Let_def)

lemmas os_consts =
  INVALID_HANDLE_VALUE_def INVALID_FILE_ATTRIBUTES_def FILE_ATTRIBUTE_DIRECTORY_def
  ERROR_SHARING_VIOLATION_def

lemma example_facts:
  "dir_work \<noteq> []" "dir_sub \<noteq> []" "length dir_work = 8" "length dir_sub = 12"
  "dir_work \<noteq> dir_sub" "dir_sub \<noteq> dir_work"
  by (simp_all add: example_chars)

lemma lock_XY:
  "lock_phase 0 table_XY replies_XY =
     ([EvGetFileAttributes dir_work 0x10, EvCreateFile (dir_work @ SUBST_FILE_NAME) 100 0,
       EvWriteFile 100 TimeStamp, EvWriteFile 100 (Substituting 0x58 (Some dir_work)),
       EvGetFileAttributes dir_sub 0x10, EvCreateFile (dir_sub @ SUBST_FILE_NAME) 104 0,
       EvWriteFile 104 TimeStamp, EvWriteFile 104 (Substituting 0x59 (Some dir_sub))],
      Next (table2 (node_X\<lparr>hLockFile := 100\<rparr>) (node_Y\<lparr>hLockFile := 104\<rparr>),
            drop 4 replies_XY))"
  by (simp add: table_XY_def lock_phase_table2 lock_slot_def node_X_def node_Y_def
        new_SUBST_NODE_def replies_XY_def LogToFile_def os_consts)

lemma map_XY:
  "map_phase nd 0 (table2 (node_X\<lparr>hLockFile := 100\<rparr>) (node_Y\<lparr>hLockFile := 104\<rparr>))
     (drop 4 replies_XY) =
     ([EvMapDrive 0x58 (wstr ''subst '' @ [QUOTE, 0x58, COLON, QUOTE, SPACE, QUOTE]
                        @ take 7 dir_work @ [QUOTE]) (Exited 0),
       EvGetMappedPaths (EnumOutput [listing_X]),
       EvMapDrive 0x59 (wstr ''subst '' @ [QUOTE, 0x59, COLON, QUOTE, SPACE, QUOTE]
                        @ take 11 dir_sub @ [QUOTE]) (Exited 0),
       EvGetMappedPaths (EnumOutput [listing_X @ listing_Y])],
      Next (table2 (node_X\<lparr>szMappedPath := Some dir_work, hLockFile := 100\<rparr>)
                   (node_Y\<lparr>szMappedPath := Some dir_sub, hLockFile := 104\<rparr>),
            drop 8 replies_XY))"
  by (simp add: map_phase_table2_start map_phase_table2_X map_phase_table2_Y
        map_phase_table2_end map_slot_def MapDrive_def enum_X enum_XY node_X_def node_Y_def
        new_SUBST_NODE_def replies_XY_def Let_def example_facts)

lemma wcsstr_prefix: "wcsstr str strSearch = Some 0 \<longleftrightarrow> prefix strSearch str"
  by (cases str) auto

lemma table2_list: "table2 a b = replicate 23 None @ [Some a, Some b, None]"
proof -
  have "replicate (23 + 3) (None :: SUBST_NODE option) = replicate 23 None @ replicate 3 None"
    by (rule replicate_add)
  moreover have "replicate 3 (None :: SUBST_NODE option) = [None, None, None]"
    by (simp add: numeral_3_eq_3)
  ultimately have "replicate NUMBER_DEFINABLE_SUBST (None :: SUBST_NODE option)
                   = replicate 23 None @ [None, None, None]"
    by (simp add: NUMBER_DEFINABLE_SUBST_def)
  then show ?thesis
    by (simp add: table2_def list_update_append)
qed

lemma find_start_directory_skip:
  "find_start_directory (replicate k None @ rest) cur l new = find_start_directory rest cur l new"
  by (induction k) simp_all

lemma cleanup_skip:
  "cleanup nd (replicate k None @ rest) code rs = cleanup nd rest code rs"
  by (induction k) simp_all

lemma requested_skip: "requested (replicate k None @ rest) = requested rest"
  by (induction k) simp_all

lemma requested_table2 [simp]: "requested (table2 a b) = [a, b]"
  by (simp add: table2_list requested_skip)

lemma cwd_deep_lower:
  "lower_with_separator cwd_deep = dir_sub @ wstr ''deep'' @ [BACKSLASH]"
  by (simp add: lower_with_separator_def cwd_deep_def dir_sub_def wstr_def totlower_def
        BACKSLASH_def Let_def)

lemma work_dir_XY:
  "szSourceDirectory a = Some dir_work \<Longrightarrow> szSourceDirectory b = Some dir_sub \<Longrightarrow>
   working_directory (table2 a b) cwd_deep =
     Inr ([szDriveLetter b, COLON, BACKSLASH] @ wstr ''deep'' @ [BACKSLASH])"
  by (simp add: working_directory_def cwd_deep_lower table2_list find_start_directory_skip
        wcsstr_prefix Let_def SUBST_SOURCE_LENGTH_def example_facts)
     (simp add: dir_sub_def dir_work_def wstr_def)

lemma argv_XY_command: "concat (map quote_arg (drop 3 argv_XY)) = wstr ''cmd.exe ''"
  by (simp add: argv_XY_def quote_arg_def wstr_def SPACE_def)

lemma cwd_deep_nonempty: "cwd_deep \<noteq> []"
  by (simp add: cwd_deep_def wstr_def)

lemma run_XY:
  "SubstDrivesAndExecute nd argv_XY [23, 24] table_XY 3 replies_XY =
     ([EvGetFileAttributes dir_work 0x10, EvCreateFile (dir_work @ SUBST_FILE_NAME) 100 0,
       EvWriteFile 100 TimeStamp, EvWriteFile 100 (Substituting 0x58 (Some dir_work)),
       EvGetFileAttributes dir_sub 0x10, EvCreateFile (dir_sub @ SUBST_FILE_NAME) 104 0,
       EvWriteFile 104 TimeStamp, EvWriteFile 104 (Substituting 0x59 (Some dir_sub)),
       EvMapDrive 0x58 (wstr ''subst '' @ [QUOTE, 0x58, COLON, QUOTE, SPACE, QUOTE]
                        @ take 7 dir_work @ [QUOTE]) (Exited 0),
       EvGetMappedPaths (EnumOutput [listing_X]),
       EvMapDrive 0x59 (wstr ''subst '' @ [QUOTE, 0x59, COLON, QUOTE, SPACE, QUOTE]
                        @ take 11 dir_sub @ [QUOTE]) (Exited 0),
       EvGetMappedPaths (EnumOutput [listing_X @ listing_Y]),
       EvGetCurrentDirectory cwd_deep,
       EvCreateProcess (wstr ''cmd.exe '') ([0x59, COLON, BACKSLASH] @ wstr ''deep'' @ [BACKSLASH])
         (Exited 0),
       EvWriteFile 100 TimeStamp, EvWriteFile 100 (DoneUnsubst 0x58 (Some dir_work)),
       EvUnmapDrive 0x58 (wstr ''subst /D '' @ [QUOTE, 0x58, COLON, QUOTE]) (Exited 0),
       EvCloseHandle 100,
       EvWriteFile 104 TimeStamp, EvWriteFile 104 (DoneUnsubst 0x59 (Some dir_sub)),
       EvUnmapDrive 0x59 (wstr ''subst /D '' @ [QUOTE, 0x59, COLON, QUOTE]) (Exited 0),
       EvCloseHandle 104],
      Inr 0)"
  apply (simp add: SubstDrivesAndExecute_def setup_drives_def lock_XY map_XY)
  apply (simp add: execute_and_cleanup_def ExecuteProcess_def replies_XY_def argv_XY_command
           work_dir_XY node_X_def node_Y_def new_SUBST_NODE_def cwd_deep_nonempty)
  apply (simp add: table2_list cleanup_skip LogToFile_def UnmapDrive_def os_consts Let_def
           QUOTE_def COLON_def)
  done

lemma wf_table_empty: "wf_table (replicate NUMBER_DEFINABLE_SUBST None)"
  by (simp add: wf_table_def)

lemma wf_table_update:
  "wf_table tbl \<Longrightarrow> i < NUMBER_DEFINABLE_SUBST \<Longrightarrow> unat (szDriveLetter n) = 65 + i \<Longrightarrow>
   szSourceDirectory n \<noteq> None \<Longrightarrow> wf_table (tbl[i := Some n])"
  by (auto simp: wf_table_def nth_list_update)

lemma wf_table_XY: "wf_table table_XY"
  unfolding table_XY_def table2_def
  by (intro wf_table_update wf_table_empty)
     (simp_all add: NUMBER_DEFINABLE_SUBST_def node_X_def node_Y_def new_SUBST_NODE_def)

theorem locks_before_mapping_in_letter_order_witness:
  "wf_table table_XY
   \<and> sorted_wrt (<) (map (unat \<circ> szDriveLetter) (requested table_XY))
   \<and> opened_files (takeWhile (\<lambda>e. mapped_letter e = [])
        (fst (SubstDrivesAndExecute True argv_XY [23, 24] table_XY 3 replies_XY)))
      = map source_lock_file (requested table_XY)
   \<and> map source_lock_file (requested table_XY)
      = [dir_work @ SUBST_FILE_NAME, dir_sub @ SUBST_FILE_NAME]
   \<and> mapped_letters (fst (SubstDrivesAndExecute True argv_XY [23, 24] table_XY 3 replies_XY))
      = [0x58, 0x59]
   \<and> sorted (map unat
        (mapped_letters (fst (SubstDrivesAndExecute True argv_XY [23, 24] table_XY 3 replies_XY))))"
proof -
  have letters: "mapped_letters (fst (SubstDrivesAndExecute True argv_XY [23, 24] table_XY 3 replies_XY))
      = [0x58, 0x59]"
    by (simp add: run_XY)
  have files: "map source_lock_file (requested table_XY)
      = [dir_work @ SUBST_FILE_NAME, dir_sub @ SUBST_FILE_NAME]"
    by (simp add: table_XY_def source_lock_file_def node_X_def node_Y_def new_SUBST_NODE_def)
  from locks_before_mapping_in_letter_order [OF wf_table_XY run_XY [of True]] letters files
  show ?thesis
    using wf_table_XY by (simp add: run_XY)
qed

end
